theory Spec2Isabelle
  imports Complex_Main "HOL-Library.Sublist"
begin

section \<open>Python values and errors\<close>

text \<open>
  The engine is Python over torch tensors. Python integers are \<open>int\<close>, an optional
  field (\<open>= None\<close>) is an \<open>option\<close>, and every exception the modelled code can raise is
  a value of \<open>py_error\<close>; a fallible function returns \<open>py_error + 'a\<close> with \<open>Inl\<close> the
  exception. Floating-point numbers are idealised as \<open>real\<close>: rounding and the casts
  between dtypes are outside the model.
\<close>

datatype py_error =
  IndexError | KeyError | AssertionError | TypeError | ZeroDivisionError | RuntimeError
  | AttributeError

definition bind_err :: "py_error + 'a \<Rightarrow> ('a \<Rightarrow> py_error + 'b) \<Rightarrow> py_error + 'b" where
  "bind_err r f = (case r of Inl e \<Rightarrow> Inl e | Inr a \<Rightarrow> f a)"

section \<open>ModelArgs\<close>

text \<open>\<open>find_multiple(n, k)\<close>; Python's \<open>%\<close> on integers is the floor remainder, as \<open>mod\<close>.\<close>

definition find_multiple :: "int \<Rightarrow> int \<Rightarrow> int" where
  "find_multiple n k = (if n mod k = 0 then n else n + k - (n mod k))"

text \<open>\<open>int(a / b)\<close> for integers \<open>a\<close>, \<open>b\<close>: true division, then truncation towards zero.\<close>

definition int_of_quotient :: "int \<Rightarrow> int \<Rightarrow> int" where
  "int_of_quotient a b = sgn a * sgn b * (\<bar>a\<bar> div \<bar>b\<bar>)"

text \<open>The dataclass \<open>ModelArgs\<close>, the same in \<open>model.py\<close> and \<open>model_selfspec.py\<close>.\<close>

record ModelArgs =
  block_size :: int
  vocab_size :: int
  n_layer :: int
  n_head :: int
  dim :: int
  intermediate_size :: "int option"
  n_local_heads :: int
  head_dim :: int
  rope_base :: real
  norm_eps :: real
  scaling_factor :: real
  low_freq_factor :: "int option"
  high_freq_factor :: "int option"
  original_max_position_embeddings :: "int option"

text \<open>The field defaults of the dataclass: what the constructor holds before \<open>__post_init__\<close>
  when no keyword is given.\<close>

definition ModelArgs_defaults :: ModelArgs where
  "ModelArgs_defaults =
     \<lparr> block_size = 2048, vocab_size = 32000, n_layer = 32, n_head = 32, dim = 4096,
       intermediate_size = None, n_local_heads = - 1, head_dim = 64, rope_base = 10000,
       norm_eps = 1 / 100000, scaling_factor = 1,
       low_freq_factor = None, high_freq_factor = None,
       original_max_position_embeddings = None \<rparr>"

text \<open>
  \<open>__post_init__\<close>, applied to the fields as the caller supplied them. The only statement
  that can raise is \<open>self.dim // self.n_head\<close>, when \<open>n_head\<close> is 0; it runs last.
\<close>

definition post_init :: "ModelArgs \<Rightarrow> py_error + ModelArgs" where
  "post_init self =
     (let self1 = (if n_local_heads self = - 1 then self\<lparr>n_local_heads := n_head self\<rparr> else self);
          self2 = (case intermediate_size self1 of
                     None \<Rightarrow>
                       (let hidden_dim = 4 * dim self1;
                            n_hidden = int_of_quotient (2 * hidden_dim) 3
                        in self1\<lparr>intermediate_size := Some (find_multiple n_hidden 256)\<rparr>)
                   | Some _ \<Rightarrow> self1)
      in if n_head self2 = 0 then Inl ZeroDivisionError
         else Inr (self2\<lparr>head_dim := dim self2 div n_head self2\<rparr>))"

subsection \<open>Named configurations\<close>

text \<open>
  The table \<open>transformer_configs\<close>: a dict literal, kept as an association list in
  insertion order (the order Python iterates it in). Each value is the keyword dict of the
  source, written as the constructor's fields: the defaults updated by the keywords.
\<close>

definition transformer_configs :: "(string \<times> ModelArgs) list" where
  "transformer_configs =
     [(''llama-2-7b'',
         ModelArgs_defaults\<lparr>block_size := 4096, n_layer := 32, n_head := 32, dim := 4096\<rparr>),
      (''llama-2-7b-32k'',
         ModelArgs_defaults\<lparr>block_size := 32768, n_layer := 32, dim := 4096, vocab_size := 32000,
           scaling_factor := 8\<rparr>),
      (''llama-2-13b'',
         ModelArgs_defaults\<lparr>block_size := 4096, n_layer := 40, n_head := 40, dim := 5120\<rparr>),
      (''llama-2-70b'',
         ModelArgs_defaults\<lparr>block_size := 4096, n_layer := 80, n_head := 64, dim := 8192,
           n_local_heads := 8, intermediate_size := Some 28672\<rparr>),
      (''llama-3-8b'',
         ModelArgs_defaults\<lparr>block_size := 8192, n_layer := 32, n_head := 32, n_local_heads := 8,
           dim := 4096, intermediate_size := Some 14336, vocab_size := 128256,
           rope_base := 500000\<rparr>),
      (''llama-3-70b'',
         ModelArgs_defaults\<lparr>block_size := 8192, n_layer := 80, n_head := 64, n_local_heads := 8,
           dim := 8192, intermediate_size := Some 28672, vocab_size := 128256,
           rope_base := 500000\<rparr>),
      (''68m'',
         ModelArgs_defaults\<lparr>block_size := 2048, n_layer := 2, n_head := 12, n_local_heads := 12,
           dim := 768, intermediate_size := Some 3072, vocab_size := 32000\<rparr>),
      (''tinyllama'',
         ModelArgs_defaults\<lparr>block_size := 2048, n_layer := 22, n_head := 32, n_local_heads := 4,
           dim := 2048, intermediate_size := Some 5632, vocab_size := 32000\<rparr>),
      (''llama-3.1-8b'',
         ModelArgs_defaults\<lparr>block_size := 131072, n_layer := 32, n_head := 32, n_local_heads := 8,
           dim := 4096, intermediate_size := Some 14336, vocab_size := 128256,
           rope_base := 500000, scaling_factor := 8, high_freq_factor := Some 4,
           low_freq_factor := Some 1, original_max_position_embeddings := Some 8192\<rparr>)]"

text \<open>\<open>str.lower()\<close> on ASCII text: the letters \<open>A\<close> to \<open>Z\<close> move to \<open>a\<close> to \<open>z\<close>.\<close>

definition lower_char :: "char \<Rightarrow> char" where
  "lower_char c =
     (let n = (of_char c :: nat) in if 65 \<le> n \<and> n \<le> 90 then char_of (n + 32) else c)"

definition lower :: "string \<Rightarrow> string" where
  "lower s = map lower_char s"

text \<open>The test of the fuzzy search, \<open>config.lower() in str(name).lower()\<close>: Python's \<open>in\<close>
  on strings is the contiguous-substring test.\<close>

definition fuzzy_match :: "string \<Rightarrow> string \<Rightarrow> bool" where
  "fuzzy_match name config = sublist (lower config) (lower name)"

text \<open>
  \<open>ModelArgs.from_name\<close>, over the table it reads. \<open>config.sort(key=len, reverse=True)\<close>
  is a stable sort by decreasing length; it runs, with the assertion, only when more than
  one key matched. \<open>config[0]\<close> raises IndexError on the empty list. \<open>cls(**kwargs)\<close> is the
  constructor, that is \<open>post_init\<close> on the fields.
\<close>

definition from_name_in :: "(string \<times> ModelArgs) list \<Rightarrow> string \<Rightarrow> py_error + ModelArgs" where
  "from_name_in table name =
     (case map_of table name of
        Some kwargs \<Rightarrow> post_init kwargs
      | None \<Rightarrow>
          (let config = filter (fuzzy_match name) (map fst table);
               sorted_config =
                 (if length config > 1 then sort_key (\<lambda>c. - int (length c)) config else config)
           in if length config > 1 \<and> length (sorted_config ! 0) = length (sorted_config ! 1)
              then Inl AssertionError
              else (case sorted_config of
                      [] \<Rightarrow> Inl IndexError
                    | c # _ \<Rightarrow>
                        (case map_of table c of
                           None \<Rightarrow> Inl KeyError
                         | Some kwargs \<Rightarrow> post_init kwargs))))"

definition from_name :: "string \<Rightarrow> py_error + ModelArgs" where
  "from_name name = from_name_in transformer_configs name"

section \<open>Tensors, slices and slice assignment\<close>

text \<open>
  A cache tensor has shape (batch, position, heads, head_dim). The streaming cache only
  ever moves whole (heads, head_dim) blocks, so a tensor is a list of rows, one per
  sequence of the batch, and a row is a list of entries of any type \<open>'a\<close>, one per position.
  \<open>t.shape[1]\<close> is the length of the rows (0 for a tensor with no row).
\<close>

definition shape1 :: "'a list list \<Rightarrow> nat" where
  "shape1 t = (case t of [] \<Rightarrow> 0 | r # _ \<Rightarrow> length r)"

text \<open>
  Python's slice \<open>a:b\<close> on a dimension of size \<open>n\<close>: a negative bound counts from the end,
  every bound is clamped to \<open>0..n\<close>, an omitted bound (\<open>None\<close>) is the end of its side, and
  a stop before the start gives the empty slice.
\<close>

definition slice_bound :: "nat \<Rightarrow> int \<Rightarrow> nat" where
  "slice_bound n i = (if i < 0 then nat (int n + i) else min n (nat i))"

definition slice_start :: "nat \<Rightarrow> int option \<Rightarrow> nat" where
  "slice_start n a = (case a of None \<Rightarrow> 0 | Some i \<Rightarrow> slice_bound n i)"

definition slice_stop :: "nat \<Rightarrow> int option \<Rightarrow> nat" where
  "slice_stop n b = (case b of None \<Rightarrow> n | Some i \<Rightarrow> slice_bound n i)"

definition py_slice :: "'a list \<Rightarrow> int option \<Rightarrow> int option \<Rightarrow> 'a list" where
  "py_slice row a b =
     (let n = length row; s = slice_start n a; e = slice_stop n b
      in take (e - s) (drop s row))"

text \<open>\<open>t[:, a:b]\<close>.\<close>

definition getitem_cols :: "'a list list \<Rightarrow> int option \<Rightarrow> int option \<Rightarrow> 'a list list" where
  "getitem_cols t a b = map (\<lambda>row. py_slice row a b) t"

text \<open>
  Broadcasting one dimension of the assigned tensor to the size \<open>n\<close> of the target: the
  sizes agree, or the source has size 1 and is repeated; anything else is torch's
  shape-mismatch RuntimeError.
\<close>

definition broadcast :: "nat \<Rightarrow> 'b list \<Rightarrow> py_error + 'b list" where
  "broadcast n xs =
     (if length xs = n then Inr xs
      else if length xs = 1 then Inr (replicate n (hd xs))
      else Inl RuntimeError)"

fun map_err :: "('b \<Rightarrow> py_error + 'c) \<Rightarrow> 'b list \<Rightarrow> py_error + 'c list" where
  "map_err f [] = Inr []"
| "map_err f (x # xs) =
     bind_err (f x) (\<lambda>y. bind_err (map_err f xs) (\<lambda>ys. Inr (y # ys)))"

definition setitem_row :: "'a list \<Rightarrow> int option \<Rightarrow> int option \<Rightarrow> 'a list \<Rightarrow> py_error + 'a list" where
  "setitem_row row a b src =
     (let n = length row; s = slice_start n a; e = slice_stop n b
      in bind_err (broadcast (e - s) src)
           (\<lambda>new. Inr (take s row @ new @ drop (s + (e - s)) row)))"

text \<open>\<open>t[:, a:b] = src\<close>: the shapes are checked (with broadcasting) before anything is
  written, so the assignment either raises or writes every row.\<close>

definition setitem_cols ::
  "'a list list \<Rightarrow> int option \<Rightarrow> int option \<Rightarrow> 'a list list \<Rightarrow> py_error + 'a list list" where
  "setitem_cols t a b src =
     bind_err (broadcast (length t) src)
       (\<lambda>src_rows. map_err (\<lambda>(row, src_row). setitem_row row a b src_row) (zip t src_rows))"

text \<open>\<open>torch.cat((x, y), dim=1)\<close>: the batch sizes must agree (no broadcasting).\<close>

definition cat_cols :: "'a list list \<Rightarrow> 'a list list \<Rightarrow> py_error + 'a list list" where
  "cat_cols x y = (if length x = length y then Inr (map2 (@) x y) else Inl RuntimeError)"

section \<open>The streaming window cache (\<open>model_selfspec.KVCache\<close>)\<close>

record 'a KVCache =
  k_cache :: "'a list list"
  v_cache :: "'a list list"
  draft_k_cache :: "'a list list"
  draft_v_cache :: "'a list list"
  batch_indices :: "nat list"
  streaming_budget :: int

text \<open>
  \<open>KVCache.__init__\<close>: four zero tensors; one entry is a zero block of shape
  (n_heads, head_dim). \<open>torch.zeros\<close> and \<open>torch.arange\<close> raise on a negative size.
\<close>

definition zeros :: "int \<Rightarrow> int \<Rightarrow> int \<Rightarrow> int \<Rightarrow> py_error + real list list list list" where
  "zeros d0 d1 d2 d3 =
     (if d0 < 0 \<or> d1 < 0 \<or> d2 < 0 \<or> d3 < 0 then Inl RuntimeError
      else Inr (replicate (nat d0) (replicate (nat d1) (replicate (nat d2) (replicate (nat d3) 0)))))"

definition KVCache_init ::
  "int \<Rightarrow> int \<Rightarrow> int \<Rightarrow> int \<Rightarrow> int \<Rightarrow> int \<Rightarrow> py_error + (real list list) KVCache" where
  "KVCache_init max_batch_size max_seq_length n_heads hd_dim budget buffer =
     bind_err (zeros max_batch_size max_seq_length n_heads hd_dim) (\<lambda>kc.
     bind_err (zeros max_batch_size max_seq_length n_heads hd_dim) (\<lambda>vc.
     bind_err (zeros max_batch_size (budget + buffer) n_heads hd_dim) (\<lambda>dk.
     bind_err (zeros max_batch_size (budget + buffer) n_heads hd_dim) (\<lambda>dv.
       Inr \<lparr> k_cache = kc, v_cache = vc, draft_k_cache = dk, draft_v_cache = dv,
             batch_indices = [0..<nat max_batch_size], streaming_budget = budget \<rparr>))))"

text \<open>
  \<open>KVCache.prefill(cache_len, k_val, v_val)\<close>, the append of the streaming cache. The
  cursor is \<open>cache_len[0].item()\<close>: the first element of the cursor vector (IndexError
  when there is none). The result is the updated cache and the two returned tensors.
\<close>

definition prefill ::
  "'a KVCache \<Rightarrow> int list \<Rightarrow> 'a list list \<Rightarrow> 'a list list \<Rightarrow>
     py_error + ('a KVCache \<times> 'a list list \<times> 'a list list)" where
  "prefill self cache_len k_val v_val =
     (case cache_len of
        [] \<Rightarrow> Inl IndexError
      | cache_len_int # _ \<Rightarrow>
          (let k_out = draft_k_cache self;
               v_out = draft_v_cache self;
               budget = streaming_budget self;
               stop = cache_len_int + int (shape1 k_val)
           in if stop \<le> budget then
                bind_err (setitem_cols k_out (Some cache_len_int) (Some stop) k_val) (\<lambda>k_out'.
                bind_err (setitem_cols v_out (Some cache_len_int) (Some stop) v_val) (\<lambda>v_out'.
                  Inr (self\<lparr>draft_k_cache := k_out', draft_v_cache := v_out'\<rparr>,
                       getitem_cols k_out' None (Some stop),
                       getitem_cols v_out' None (Some stop))))
              else
                bind_err (cat_cols (getitem_cols k_out (Some 16) (Some budget)) k_val) (\<lambda>cat_k.
                bind_err (cat_cols (getitem_cols v_out (Some 16) (Some budget)) v_val) (\<lambda>cat_v.
                  (let new_k = getitem_cols cat_k (Some (- budget + 16)) None;
                       new_v = getitem_cols cat_v (Some (- budget + 16)) None
                   in bind_err (setitem_cols k_out (Some 16) (Some budget) new_k) (\<lambda>k_out'.
                      bind_err (setitem_cols v_out (Some 16) (Some budget) new_v) (\<lambda>v_out'.
                        Inr (self\<lparr>draft_k_cache := k_out', draft_v_cache := v_out'\<rparr>,
                             getitem_cols k_out' None (Some budget),
                             getitem_cols v_out' None (Some budget)))))))))"

text \<open>A sequence of appends on the same cache, each given as (cursor vector, keys, values);
  the first exception ends it. The returned tensors of every call are collected.\<close>

fun run_prefill ::
  "'a KVCache \<Rightarrow> (int list \<times> 'a list list \<times> 'a list list) list \<Rightarrow>
     py_error + ('a KVCache \<times> ('a list list \<times> 'a list list) list)" where
  "run_prefill self [] = Inr (self, [])"
| "run_prefill self ((cache_len, k_val, v_val) # ops) =
     bind_err (prefill self cache_len k_val v_val) (\<lambda>(self', ret).
     bind_err (run_prefill self' ops) (\<lambda>(self'', rets). Inr (self'', ret # rets)))"

subsection \<open>Shapes, and the append as the specification words it\<close>

text \<open>\<open>rect B S t\<close>: the tensor \<open>t\<close> has \<open>B\<close> rows of \<open>S\<close> entries each (shape (B, S, ...)).\<close>

definition rect :: "nat \<Rightarrow> nat \<Rightarrow> 'a list list \<Rightarrow> bool" where
  "rect B S t = (length t = B \<and> (\<forall>r\<in>set t. length r = S))"

text \<open>
  The two cases of the append on one row, following the words of the specification.
  \<open>write_at\<close> writes the new entries at positions \<open>[c, c + length new)\<close>. \<open>shift_in\<close>
  keeps the sink \<open>[0, 16)\<close> and everything from \<open>budget\<close> on, and replaces the sliding region
  \<open>[16, budget)\<close> by the old region followed by the new entries, with the oldest
  \<open>length new\<close> entries of that sequence dropped.
\<close>

definition write_at :: "nat \<Rightarrow> 'a list \<Rightarrow> 'a list \<Rightarrow> 'a list" where
  "write_at c row new = take c row @ new @ drop (c + length new) row"

definition shift_in :: "nat \<Rightarrow> 'a list \<Rightarrow> 'a list \<Rightarrow> 'a list" where
  "shift_in budget row new =
     (let sink = take 16 row;
          region = take (budget - 16) (drop 16 row);
          rest = drop budget row
      in sink @ drop (length new) (region @ new) @ rest)"

text \<open>
  Sequences of appends. \<open>cursors_advance c ops\<close>: every call has a cursor, and the cursor
  of each call is at least the cursor of the call before plus the number of entries that
  call appended (\<open>c\<close> for the first one). \<open>in_budget_chain B budget c ops\<close>: every call
  appends keys and values of \<open>B\<close> rows and equal length, its cursor is exactly the total
  appended so far (\<open>c\<close> for the first one), and the total stays within the budget.
\<close>

fun cursors_advance :: "int \<Rightarrow> (int list \<times> 'a list list \<times> 'a list list) list \<Rightarrow> bool" where
  "cursors_advance c [] = True"
| "cursors_advance c ((cache_len, k_val, v_val) # ops) =
     (case cache_len of
        [] \<Rightarrow> False
      | c' # _ \<Rightarrow> c \<le> c' \<and> cursors_advance (c' + int (shape1 k_val)) ops)"

fun in_budget_chain ::
  "nat \<Rightarrow> int \<Rightarrow> int \<Rightarrow> (int list \<times> 'a list list \<times> 'a list list) list \<Rightarrow> bool" where
  "in_budget_chain B budget c [] = True"
| "in_budget_chain B budget c ((cache_len, k_val, v_val) # ops) =
     (case cache_len of
        [] \<Rightarrow> False
      | c' # _ \<Rightarrow>
          c' = c \<and> rect B (shape1 k_val) k_val \<and> rect B (shape1 k_val) v_val \<and>
          c + int (shape1 k_val) \<le> budget \<and>
          in_budget_chain B budget (c + int (shape1 k_val)) ops)"

text \<open>Concatenation along the position dimension: of a list of tensors onto \<open>acc\<close>, and the
  running concatenations after each tensor.\<close>

fun cat_onto :: "'a list list \<Rightarrow> 'a list list list \<Rightarrow> 'a list list" where
  "cat_onto acc [] = acc"
| "cat_onto acc (t # ts) = cat_onto (map2 (@) acc t) ts"

fun running_cat :: "'a list list \<Rightarrow> 'a list list list \<Rightarrow> 'a list list list" where
  "running_cat acc [] = []"
| "running_cat acc (t # ts) = map2 (@) acc t # running_cat (map2 (@) acc t) ts"

text \<open>The number of entries a sequence of appends adds to each row.\<close>

definition appended_total :: "(int list \<times> 'a list list \<times> 'a list list) list \<Rightarrow> nat" where
  "appended_total ops = sum_list (map (\<lambda>(cache_len, k_val, v_val). shape1 k_val) ops)"

section \<open>Rotary frequency table\<close>

text \<open>
  \<open>_compute_llama3_parameters(inv_freq, old_context_len, scaling_factor, low_freq_factor,
  high_freq_factor)\<close>. The two wavelengths are Python divisions of the configuration's
  numbers: \<open>None / n\<close> raises TypeError and a zero divisor raises ZeroDivisionError. The
  loop visits the frequencies in order and stops at the first failed assertion. A
  frequency is an element of a float tensor, idealised as a real number; for a zero
  frequency torch's wavelength is infinite, which a real number cannot be, so the model
  speaks for nonzero frequencies only. The comparisons of the model are those of the
  exact values, where the source compares float32 values: a wavelength within rounding
  distance of a band boundary can fall, in the source, on the boundary or on its other
  side. What is proved of a frequency therefore speaks for the program when its
  wavelength is not that close to a boundary, and nothing is proved here about which
  frequencies reach the assertion.
\<close>

definition compute_llama3_parameters ::
  "real list \<Rightarrow> int option \<Rightarrow> real \<Rightarrow> int \<Rightarrow> int \<Rightarrow> py_error + real list" where
  "compute_llama3_parameters inv_freq old_context_len scaling low high =
     (case old_context_len of
        None \<Rightarrow> Inl TypeError
      | Some old \<Rightarrow>
          if low = 0 \<or> high = 0 then Inl ZeroDivisionError
          else
            (let low_freq_wavelen = real_of_int old / real_of_int low;
                 high_freq_wavelen = real_of_int old / real_of_int high
             in map_err
                  (\<lambda>freq.
                     (let wavelen = 2 * pi / freq
                      in if wavelen < high_freq_wavelen then Inr freq
                         else if wavelen > low_freq_wavelen then Inr (freq / scaling)
                         else if low_freq_wavelen = high_freq_wavelen then Inl AssertionError
                         else
                           (let smooth = (real_of_int old / wavelen - real_of_int low) /
                                         (real_of_int high - real_of_int low)
                            in Inr ((1 - smooth) * freq / scaling + smooth * freq))))
                  inv_freq))"

text \<open>
  The rescaling of one frequency as the specification words it, case by case in the
  order given: unchanged below \<open>high_wavelen\<close>, divided by the scaling factor above
  \<open>low_wavelen\<close>, and the linear blend otherwise.
\<close>

definition long_context_rescale :: "int \<Rightarrow> real \<Rightarrow> int \<Rightarrow> int \<Rightarrow> real \<Rightarrow> real" where
  "long_context_rescale original_max scaling low high f =
     (let wavelength = 2 * pi / f;
          low_wavelen = real_of_int original_max / real_of_int low;
          high_wavelen = real_of_int original_max / real_of_int high;
          smooth = (real_of_int original_max / wavelength - real_of_int low) /
                   (real_of_int high - real_of_int low)
      in if wavelength < high_wavelen then f
         else if wavelength > low_wavelen then f / scaling
         else (1 - smooth) * f / scaling + smooth * f)"

text \<open>
  The base inverse frequencies \<open>1.0 / (base ** (arange(0, n_elem, 2)[: n_elem // 2] /
  n_elem))\<close>, for a positive base; \<open>torch.arange\<close> raises on a negative bound.
\<close>

definition base_freqs :: "int \<Rightarrow> real \<Rightarrow> py_error + real list" where
  "base_freqs n_elem base =
     (if n_elem < 0 then Inl RuntimeError
      else Inr (map (\<lambda>i. 1 / (base powr (real (2 * i) / real_of_int n_elem)))
                  [0..<nat (n_elem div 2)]))"

text \<open>
  \<open>precompute_freqs_cis\<close>: the table has one row per position \<open>t < seq_len\<close>, holding for
  each frequency the pair \<open>(cos (t * f), sin (t * f))\<close>. The cast to the cache dtype is not
  modelled.
\<close>

definition precompute_freqs_cis ::
  "int \<Rightarrow> int \<Rightarrow> real \<Rightarrow> real \<Rightarrow> int option \<Rightarrow> int option \<Rightarrow> int option \<Rightarrow>
     py_error + (real \<times> real) list list" where
  "precompute_freqs_cis seq_len n_elem base scaling low high original_max =
     bind_err (base_freqs n_elem base) (\<lambda>freqs.
     bind_err
       (case (low, high) of
          (Some l, Some h) \<Rightarrow> compute_llama3_parameters freqs original_max scaling l h
        | _ \<Rightarrow> Inr (map (\<lambda>f. f / scaling) freqs))
       (\<lambda>freqs'.
          if seq_len < 0 then Inl RuntimeError
          else Inr (map (\<lambda>t. map (\<lambda>f. (cos (real t * f), sin (real t * f))) freqs')
                      [0..<nat seq_len])))"

section \<open>Cache setup\<close>

subsection \<open>The target model (\<open>model.Transformer\<close>)\<close>

text \<open>
  What \<open>setup_caches\<close> touches of the target model: each layer's paged cache, a zero
  tensor of shape (max_num_pages, 2, page_size, n_heads, head_dim), the two kernel entry
  points attached to the layer, and the frequency table. Weights are not modelled.
\<close>

datatype kernel = Target_decode | Target_prefill

record Paged_Attention =
  paged_kv_cache :: "real list list list list list option"
  attn_decode :: "kernel option"
  attn_prefill :: "kernel option"

record Transformer =
  config :: ModelArgs
  layers :: "Paged_Attention list"
  freqs_cis :: "(real \<times> real) list list option"

definition Transformer_init :: "ModelArgs \<Rightarrow> Transformer" where
  "Transformer_init cfg =
     \<lparr> config = cfg,
       layers = replicate (nat (n_layer cfg))
                  \<lparr> paged_kv_cache = None, attn_decode = None, attn_prefill = None \<rparr>,
       freqs_cis = None \<rparr>"

definition paged_zeros ::
  "int \<Rightarrow> int \<Rightarrow> int \<Rightarrow> int \<Rightarrow> py_error + real list list list list list" where
  "paged_zeros max_num_pages page_size n_heads hd_dim =
     (if max_num_pages < 0 then Inl RuntimeError
      else bind_err (zeros 2 page_size n_heads hd_dim)
             (\<lambda>page. Inr (replicate (nat max_num_pages) page)))"

text \<open>The frequency table of a configuration, as both \<open>setup_caches\<close> build it: the
  long-context arguments are passed only when both factors are present.\<close>

definition config_freqs_cis :: "ModelArgs \<Rightarrow> py_error + (real \<times> real) list list" where
  "config_freqs_cis cfg =
     (if n_head cfg = 0 then Inl ZeroDivisionError
      else if high_freq_factor cfg \<noteq> None \<and> low_freq_factor cfg \<noteq> None
      then precompute_freqs_cis (block_size cfg) (dim cfg div n_head cfg) (rope_base cfg)
             (scaling_factor cfg) (low_freq_factor cfg) (high_freq_factor cfg)
             (original_max_position_embeddings cfg)
      else precompute_freqs_cis (block_size cfg) (dim cfg div n_head cfg) (rope_base cfg)
             (scaling_factor cfg) None None None)"

text \<open>\<open>model.Transformer.setup_caches(num_pages, page_size)\<close>. It has no test of the
  existing capacity: every call allocates and rebuilds.\<close>

definition setup_caches :: "Transformer \<Rightarrow> int \<Rightarrow> int \<Rightarrow> py_error + Transformer" where
  "setup_caches self num_pages page_size =
     (if n_head (config self) = 0 then Inl ZeroDivisionError
      else
        (let hd_dim = dim (config self) div n_head (config self)
         in bind_err
              (map_err
                 (\<lambda>b. bind_err
                         (paged_zeros num_pages page_size (n_local_heads (config self)) hd_dim)
                         (\<lambda>kv. Inr (b\<lparr>paged_kv_cache := Some kv,
                                       attn_decode := Some Target_decode,
                                       attn_prefill := Some Target_prefill\<rparr>)))
                 (layers self))
              (\<lambda>layers'.
                 bind_err (config_freqs_cis (config self))
                   (\<lambda>table. Inr (self\<lparr>layers := layers', freqs_cis := Some table\<rparr>)))))"

text \<open>The sizes for which the allocations and the table construction of the target's
  \<open>setup_caches\<close> do not raise.\<close>

definition setup_sizes_ok :: "ModelArgs \<Rightarrow> int \<Rightarrow> int \<Rightarrow> bool" where
  "setup_sizes_ok cfg num_pages page_size =
     (n_head cfg \<noteq> 0 \<and> 0 \<le> num_pages \<and> 0 \<le> page_size \<and> 0 \<le> n_local_heads cfg \<and>
      0 \<le> dim cfg div n_head cfg \<and> 0 \<le> block_size cfg)"

text \<open>What a call of the target's \<open>setup_caches\<close> leaves in every layer.\<close>

definition fresh_layer :: "ModelArgs \<Rightarrow> int \<Rightarrow> int \<Rightarrow> Paged_Attention" where
  "fresh_layer cfg num_pages page_size =
     \<lparr> paged_kv_cache =
         Some (projr (paged_zeros num_pages page_size (n_local_heads cfg)
                        (dim cfg div n_head cfg))),
       attn_decode = Some Target_decode, attn_prefill = Some Target_prefill \<rparr>"

text \<open>The table without long-context rescaling: every base frequency divided by the
  scaling factor.\<close>

definition uniform_table :: "ModelArgs \<Rightarrow> (real \<times> real) list list" where
  "uniform_table cfg =
     map (\<lambda>t. map (\<lambda>f. (cos (real t * f), sin (real t * f)))
                (map (\<lambda>f. f / scaling_factor cfg)
                   (projr (base_freqs (dim cfg div n_head cfg) (rope_base cfg)))))
       [0..<nat (block_size cfg)]"

subsection \<open>The draft model (\<open>model_selfspec.Transformer\<close>)\<close>

record Draft_Attention =
  kv_cache :: "(real list list) KVCache option"
  layer_idx :: "nat option"

record Draft_Transformer =
  draft_config :: ModelArgs
  draft_layers :: "Draft_Attention list"
  draft_freqs_cis :: "(real \<times> real) list list option"
  max_batch_size :: int
  max_seq_length :: int
  streaming_freqs :: "(real \<times> real) list list list option"

definition Draft_Transformer_init :: "ModelArgs \<Rightarrow> Draft_Transformer" where
  "Draft_Transformer_init cfg =
     \<lparr> draft_config = cfg,
       draft_layers = replicate (nat (n_layer cfg)) \<lparr> kv_cache = None, layer_idx = None \<rparr>,
       draft_freqs_cis = None, max_batch_size = - 1, max_seq_length = - 1,
       streaming_freqs = None \<rparr>"

text \<open>
  \<open>freqs_cis[torch.arange(streaming_budget).unsqueeze(0).repeat(max_batch_size, 1)]\<close>: for
  every sequence of the batch the rows of the table at the positions
  \<open>0, ..., streaming_budget - 1\<close>. A position beyond the table raises IndexError.
\<close>

definition streaming_index ::
  "(real \<times> real) list list \<Rightarrow> int \<Rightarrow> int \<Rightarrow> py_error + (real \<times> real) list list list" where
  "streaming_index table budget batch =
     (if budget < 0 \<or> batch < 0 then Inl RuntimeError
      else if 0 < batch \<and> int (length table) < budget then Inl IndexError
      else Inr (replicate (nat batch) (map (\<lambda>p. table ! p) [0..<nat budget])))"

text \<open>\<open>model_selfspec.Transformer.setup_caches(max_batch_size, max_seq_length,
  streaming_budget, buffer)\<close>; the first statement is the test of the existing capacity.\<close>

definition draft_setup_caches ::
  "Draft_Transformer \<Rightarrow> int \<Rightarrow> int \<Rightarrow> int \<Rightarrow> int \<Rightarrow> py_error + Draft_Transformer" where
  "draft_setup_caches self batch seq_length budget buffer =
     (if max_seq_length self \<ge> seq_length \<and> max_batch_size self \<ge> batch then Inr self
      else if n_head (draft_config self) = 0 then Inl ZeroDivisionError
      else
        (let hd_dim = dim (draft_config self) div n_head (draft_config self)
         in bind_err
              (map_err
                 (\<lambda>(i, b). bind_err
                         (KVCache_init batch seq_length (n_local_heads (draft_config self))
                            hd_dim budget buffer)
                         (\<lambda>c. Inr (b\<lparr>kv_cache := Some c, layer_idx := Some i\<rparr>)))
                 (enumerate 0 (draft_layers self)))
              (\<lambda>layers'.
                 bind_err (config_freqs_cis (draft_config self)) (\<lambda>table.
                 bind_err (streaming_index table budget batch) (\<lambda>sf.
                   Inr (self\<lparr>draft_layers := layers', draft_freqs_cis := Some table,
                              max_batch_size := batch, max_seq_length := seq_length,
                              streaming_freqs := Some sf\<rparr>))))))"

section \<open>Rotary embedding and the draft attention\<close>

text \<open>
  \<open>apply_rotary_emb(x, freqs_cis)\<close>. An entry of \<open>x\<close> is a block of head vectors; the row of
  the frequency tensor at the same (sequence, position) holds the (cos, sin) pairs that
  rotate the adjacent pairs of every head vector: \<open>(x0 c - x1 s, x1 c + x0 s)\<close>. The
  reshape and the view need an even head dimension, half of it pairs per row, and as many
  rows as \<open>x\<close> has positions; the model asks for a frequency tensor that already has the
  leading shape of \<open>x\<close> (as it has at every call of the source) and reports every other
  shape as the RuntimeError of a failed view.
\<close>

fun rotate_head :: "(real \<times> real) list \<Rightarrow> real list \<Rightarrow> real list" where
  "rotate_head ((c, s) # fs) (x0 # x1 # xs) =
     (x0 * c - x1 * s) # (x1 * c + x0 * s) # rotate_head fs xs"
| "rotate_head fs xs = []"

definition rotate_blocks ::
  "(real \<times> real) list list list \<Rightarrow> real list list list list \<Rightarrow> real list list list list" where
  "rotate_blocks freqs x = map2 (map2 (\<lambda>f block. map (rotate_head f) block)) freqs x"

definition rotary_shapes_ok ::
  "real list list list list \<Rightarrow> (real \<times> real) list list list \<Rightarrow> bool" where
  "rotary_shapes_ok x freqs =
     list_all2
       (\<lambda>freq_row x_row.
          list_all2 (\<lambda>f block. list_all (\<lambda>h. length h = 2 * length f) block) freq_row x_row)
       freqs x"

definition apply_rotary_emb ::
  "real list list list list \<Rightarrow> (real \<times> real) list list list \<Rightarrow>
     py_error + real list list list list" where
  "apply_rotary_emb x freqs =
     (if rotary_shapes_ok x freqs then Inr (rotate_blocks freqs x) else Inl RuntimeError)"

text \<open>
  \<open>Attention.draft_prefill(x, freqs_cis, streaming_freqs, cache_seqlens, is_last)\<close> of
  \<open>model_selfspec\<close>. The weights and the external operations are parameters: \<open>wqkv\<close> is
  the fused projection with its split and views, giving the query, key and value
  tensors; \<open>custom_func_2\<close> is the attention kernel (with the view of its result); \<open>wo\<close> is
  the output projection; \<open>all_reduce\<close> is the reduction over the process group, when the
  module has one. The result is the module with its cache as the call leaves it, and
  the output.
\<close>

definition draft_prefill ::
  "('x \<Rightarrow> real list list list list \<times> real list list list list \<times> real list list list list) \<Rightarrow>
   (real list list list list \<Rightarrow> real list list list list \<Rightarrow> real list list list list \<Rightarrow> 'y) \<Rightarrow>
   ('y \<Rightarrow> 'y) \<Rightarrow> ('y \<Rightarrow> 'y) option \<Rightarrow>
   Draft_Attention \<Rightarrow> 'x \<Rightarrow> (real \<times> real) list list list \<Rightarrow> (real \<times> real) list list list \<Rightarrow>
   int list \<Rightarrow> bool \<Rightarrow> py_error + (Draft_Attention \<times> 'y)" where
  "draft_prefill wqkv custom_func_2 wo all_reduce self x freqs_cis_arg streaming cache_seqlens is_last =
     (case wqkv x of (q, k, v) \<Rightarrow>
        bind_err
          (case kv_cache self of
             None \<Rightarrow> Inr (self, k, v)
           | Some cache \<Rightarrow>
               bind_err (prefill cache cache_seqlens k v)
                 (\<lambda>(cache', k', v'). Inr (self\<lparr>kv_cache := Some cache'\<rparr>, k', v')))
          (\<lambda>(self1, k1, v1).
             bind_err (apply_rotary_emb q freqs_cis_arg) (\<lambda>q_rot.
             bind_err (apply_rotary_emb k1
                         (getitem_cols streaming None (Some (int (shape1 k1))))) (\<lambda>k_rot.
             bind_err
               (if is_last then
                  (case kv_cache self1 of
                     None \<Rightarrow> Inl AttributeError
                   | Some cache1 \<Rightarrow>
                       bind_err (setitem_cols (draft_k_cache cache1) None
                                   (Some (int (shape1 k_rot))) k_rot)
                         (\<lambda>dk. Inr (self1\<lparr>kv_cache := Some (cache1\<lparr>draft_k_cache := dk\<rparr>)\<rparr>)))
                else Inr self1)
               (\<lambda>self2.
                  (let y = wo (custom_func_2 q_rot k_rot v1)
                   in Inr (self2, (case all_reduce of None \<Rightarrow> y | Some reduce \<Rightarrow> reduce y))))))))"

section \<open>Example states\<close>

text \<open>
  Concrete caches and inputs on which the theorems below are exercised. A block with one
  head of dimension one holds a single number; \<open>ex_blocks i j\<close> are the blocks numbered
  \<open>i\<close> to \<open>j - 1\<close>. \<open>ex_cache\<close> is the cache \<open>KVCache(1, 4, 1, 1, streaming_budget=18,
  buffer=2)\<close>: one sequence, a draft buffer of 20 positions of which 18 are the budget.
\<close>

definition ex_block :: "nat \<Rightarrow> real list list" where
  "ex_block i = [[real i]]"

definition ex_blocks :: "nat \<Rightarrow> nat \<Rightarrow> real list list list" where
  "ex_blocks i j = map ex_block [i..<j]"

definition ex_cache :: "(real list list) KVCache" where
  "ex_cache = projr (KVCache_init 1 4 1 1 18 2)"

definition ex_after_first :: "(real list list) KVCache" where
  "ex_after_first = fst (projr (prefill ex_cache [0] [ex_blocks 1 17] [ex_blocks 21 37]))"

definition ex_ops :: "(int list \<times> real list list list list \<times> real list list list list) list" where
  "ex_ops = [([16], [ex_blocks 17 19], [ex_blocks 37 39]),
             ([18], [ex_blocks 19 20], [ex_blocks 39 40])]"

text \<open>
  \<open>ex_seventeen\<close>: \<open>ex_cache\<close> after a first prefill of 17 entries. \<open>ex_fifteen16\<close>: the
  cache with \<open>streaming_budget=16\<close> and no extra buffer, after a first prefill of 15 entries.
  \<open>ex_cache2\<close>: a fresh cache for a batch of two sequences, budget 18.
\<close>

definition ex_seventeen :: "(real list list) KVCache" where
  "ex_seventeen = fst (projr (prefill ex_cache [0] [ex_blocks 1 18] [ex_blocks 21 38]))"

definition ex_fifteen16 :: "(real list list) KVCache" where
  "ex_fifteen16 =
     fst (projr (prefill (projr (KVCache_init 1 4 1 1 16 0)) [0] [ex_blocks 1 16] [ex_blocks 21 36]))"

definition ex_cache2 :: "(real list list) KVCache" where
  "ex_cache2 = projr (KVCache_init 2 4 1 1 18 0)"

text \<open>
  Small configurations (one layer, one head of dimension two, four positions), as the
  constructor builds them: without long-context fields, with only \<open>low_freq_factor\<close>, with
  both factors but no original length, and with both factors equal.
\<close>

definition ex_tiny_kwargs :: ModelArgs where
  "ex_tiny_kwargs = ModelArgs_defaults\<lparr>block_size := 4, n_layer := 1, n_head := 1, dim := 2\<rparr>"

definition ex_tiny :: ModelArgs where
  "ex_tiny = projr (post_init ex_tiny_kwargs)"

definition ex_partial :: ModelArgs where
  "ex_partial = projr (post_init (ex_tiny_kwargs\<lparr>low_freq_factor := Some 1\<rparr>))"

definition ex_no_original :: ModelArgs where
  "ex_no_original =
     projr (post_init (ex_tiny_kwargs\<lparr>low_freq_factor := Some 1, high_freq_factor := Some 4\<rparr>))"

definition ex_equal :: ModelArgs where
  "ex_equal =
     projr (post_init (ex_tiny_kwargs\<lparr>low_freq_factor := Some 4, high_freq_factor := Some 4,
                         original_max_position_embeddings := Some 8192\<rparr>))"

text \<open>
  \<open>ex_target\<close>: the target model of \<open>ex_tiny\<close> after \<open>setup_caches(2, 1)\<close>;
  \<open>ex_target_written\<close>: the same model once the key/value entries of its pages hold the
  number 7 (the kernel writes into the buffer). \<open>ex_draft\<close>: the draft model of \<open>ex_tiny\<close>
  after \<open>setup_caches(1, 4, streaming_budget=2, buffer=0)\<close>.
\<close>

definition ex_target :: Transformer where
  "ex_target = projr (setup_caches (Transformer_init ex_tiny) 2 1)"

definition ex_target_written :: Transformer where
  "ex_target_written =
     ex_target\<lparr>layers :=
       map (\<lambda>b. b\<lparr>paged_kv_cache := Some (replicate 2 [[[[7, 7]]], [[[7, 7]]]])\<rparr>)
         (layers ex_target)\<rparr>"

definition ex_draft :: Draft_Transformer where
  "ex_draft = projr (draft_setup_caches (Draft_Transformer_init ex_tiny) 1 4 2 0)"

text \<open>
  For the draft attention: a module whose cache is \<open>KVCache(1, 4, 1, 2, streaming_budget=18,
  buffer=2)\<close> (one head of dimension two), two keys and two values, a frequency table of
  quarter turns (\<open>cos\<close> and \<open>sin\<close> of \<open>p * pi / 2\<close> at position \<open>p\<close>) and the tensor
  \<open>streaming_freqs\<close> that \<open>setup_caches\<close> builds from it for a budget of 3 positions.
\<close>

definition ex_attn_cache :: "(real list list) KVCache" where
  "ex_attn_cache = projr (KVCache_init 1 4 1 2 18 2)"

definition ex_attn :: Draft_Attention where
  "ex_attn = \<lparr>kv_cache = Some ex_attn_cache, layer_idx = Some 0\<rparr>"

definition ex_keys :: "real list list list list" where
  "ex_keys = [[[[1, 0]], [[1, 0]]]]"

definition ex_values :: "real list list list list" where
  "ex_values = [[[[3, 4]], [[5, 6]]]]"

definition ex_queries :: "real list list list list" where
  "ex_queries = [[[[1, 0]], [[1, 0]]]]"

definition ex_table :: "(real \<times> real) list list" where
  "ex_table = [[(1, 0)], [(0, 1)], [(- 1, 0)], [(0, - 1)]]"

definition ex_streaming :: "(real \<times> real) list list list" where
  "ex_streaming = projr (streaming_index ex_table 3 1)"

section \<open>Properties\<close>

subsection \<open>Error propagation and slices\<close>

lemma bind_err_Inr_iff:
  "bind_err r f = Inr y \<longleftrightarrow> (\<exists>a. r = Inr a \<and> f a = Inr y)"
  by (cases r) (simp_all add: bind_err_def)

lemma bind_err_simps:
  "bind_err (Inr a) f = f a" "bind_err (Inl e) f = Inl e"
  by (simp_all add: bind_err_def)

lemma map_err_Inr_D:
  "map_err f xs = Inr ys \<Longrightarrow> list_all2 (\<lambda>x y. f x = Inr y) xs ys"
  by (induction xs arbitrary: ys) (auto simp: bind_err_Inr_iff)

lemma map_err_Inr_I:
  "list_all2 (\<lambda>x y. f x = Inr y) xs ys \<Longrightarrow> map_err f xs = Inr ys"
  by (induction xs ys rule: list_all2_induct) (simp_all add: bind_err_simps)

lemma broadcast_zero: "broadcast 0 src = Inr new \<Longrightarrow> new = []"
  by (auto simp: broadcast_def split: if_splits)

lemma broadcast_length: "broadcast n src = Inr new \<Longrightarrow> length new = n"
  by (auto simp: broadcast_def split: if_splits)

lemma slice_stop_le: "slice_stop n b \<le> n"
  by (auto simp: slice_stop_def slice_bound_def split: option.splits)

lemma setitem_row_sink:
  assumes "16 \<le> c" and "setitem_row row (Some c) b src = Inr row'"
  shows "take 16 row' = take 16 row"
proof -
  define n where "n = length row"
  define s where "s = slice_start n (Some c)"
  define e where "e = slice_stop n b"
  from assms(2) obtain new where nw: "broadcast (e - s) src = Inr new"
    and r: "row' = take s row @ new @ drop (s + (e - s)) row"
    by (auto simp: setitem_row_def Let_def bind_err_Inr_iff n_def s_def e_def)
  have s: "s = min n (nat c)"
    using assms(1) by (simp add: s_def slice_start_def slice_bound_def)
  show ?thesis
  proof (cases "16 \<le> s")
    case True
    moreover have "s \<le> length row" using s by (simp add: n_def)
    ultimately show ?thesis using r by simp
  next
    case False
    moreover have "16 \<le> nat c" using assms(1) by simp
    ultimately have "s = n" using s by (simp add: min_def split: if_splits)
    moreover have "e \<le> n" by (simp add: e_def slice_stop_le)
    ultimately have "e - s = 0" by simp
    then have "new = []" using nw broadcast_zero by metis
    then show ?thesis using r \<open>s = n\<close> by (simp add: n_def)
  qed
qed

lemma setitem_cols_sink:
  assumes "16 \<le> c" and "setitem_cols t (Some c) b src = Inr t'"
  shows "map (take 16) t' = map (take 16) t"
proof -
  from assms(2) obtain rows where "broadcast (length t) src = Inr rows"
    and m: "map_err (\<lambda>(row, src_row). setitem_row row (Some c) b src_row) (zip t rows) = Inr t'"
    by (auto simp: setitem_cols_def bind_err_Inr_iff)
  then have lr: "length rows = length t" by (simp add: broadcast_length)
  from map_err_Inr_D[OF m]
  have la: "list_all2 (\<lambda>x y. (case x of (row, src_row) \<Rightarrow> setitem_row row (Some c) b src_row) = Inr y) (zip t rows) t'" .
  then have lt: "length t' = length t" using lr by (auto dest: list_all2_lengthD)
  show ?thesis
  proof (rule nth_equalityI)
    show "length (map (take 16) t') = length (map (take 16) t)" using lt by simp
  next
    fix i assume "i < length (map (take 16) t')"
    then have i: "i < length t" using lt by simp
    then have "setitem_row (t ! i) (Some c) b (rows ! i) = Inr (t' ! i)"
      using la lr by (auto simp: list_all2_conv_all_nth)
    then have "take 16 (t' ! i) = take 16 (t ! i)"
      using setitem_row_sink[OF assms(1)] by blast
    then show "map (take 16) t' ! i = map (take 16) t ! i"
      using i lt by simp
  qed
qed

lemma prefill_sink:
  assumes "cache_len = c # rest" "16 \<le> c"
    and "prefill self cache_len k_val v_val = Inr (self', ret)"
  shows "map (take 16) (draft_k_cache self') = map (take 16) (draft_k_cache self) \<and>
         map (take 16) (draft_v_cache self') = map (take 16) (draft_v_cache self)"
proof (cases "c + int (shape1 k_val) \<le> streaming_budget self")
  case True
  with assms(1,3) obtain k' v' where
    k: "setitem_cols (draft_k_cache self) (Some c) (Some (c + int (shape1 k_val))) k_val = Inr k'" and
    v: "setitem_cols (draft_v_cache self) (Some c) (Some (c + int (shape1 k_val))) v_val = Inr v'" and
    s: "self' = self\<lparr>draft_k_cache := k', draft_v_cache := v'\<rparr>"
    by (auto simp: prefill_def Let_def bind_err_Inr_iff)
  from setitem_cols_sink[OF assms(2) k] setitem_cols_sink[OF assms(2) v] s
  show ?thesis by simp
next
  case False
  with assms(1,3) obtain nk nv k' v' where
    k: "setitem_cols (draft_k_cache self) (Some 16) (Some (streaming_budget self)) nk = Inr k'" and
    v: "setitem_cols (draft_v_cache self) (Some 16) (Some (streaming_budget self)) nv = Inr v'" and
    s: "self' = self\<lparr>draft_k_cache := k', draft_v_cache := v'\<rparr>"
    by (auto simp: prefill_def Let_def bind_err_Inr_iff)
  have "(16::int) \<le> 16" by simp
  from setitem_cols_sink[OF this k] setitem_cols_sink[OF this v] s
  show ?thesis by simp
qed


lemma slice_bound_in: "0 \<le> i \<Longrightarrow> i \<le> int n \<Longrightarrow> slice_bound n i = nat i"
  by (simp add: slice_bound_def)

lemma setitem_row_exact:
  assumes "0 \<le> a" "a \<le> b" "b \<le> int (length row)" "length src = nat (b - a)"
  shows "setitem_row row (Some a) (Some b) src = Inr (take (nat a) row @ src @ drop (nat b) row)"
proof -
  have "slice_start (length row) (Some a) = nat a" "slice_stop (length row) (Some b) = nat b"
    using assms by (simp_all add: slice_start_def slice_stop_def slice_bound_in)
  moreover have "nat b - nat a = nat (b - a)" "nat a + nat (b - a) = nat b"
    using assms by simp_all
  ultimately show ?thesis
    using assms(4) by (simp add: setitem_row_def Let_def broadcast_def bind_err_simps)
qed

lemma map_err_total:
  "(\<And>x. x \<in> set xs \<Longrightarrow> f x = Inr (g x)) \<Longrightarrow> map_err f xs = Inr (map g xs)"
  by (induction xs) (simp_all add: bind_err_simps)

lemma setitem_cols_exact:
  assumes "rect B n t" "rect B (nat (b - a)) src" "0 \<le> a" "a \<le> b" "b \<le> int n"
  shows "setitem_cols t (Some a) (Some b) src =
         Inr (map2 (\<lambda>row new. take (nat a) row @ new @ drop (nat b) row) t src)"
proof -
  have l: "length src = length t" using assms by (simp add: rect_def)
  have "map_err (\<lambda>(row, src_row). setitem_row row (Some a) (Some b) src_row) (zip t src) =
        Inr (map (\<lambda>(row, new). take (nat a) row @ new @ drop (nat b) row) (zip t src))"
  proof (rule map_err_total)
    fix x assume xin: "x \<in> set (zip t src)"
    obtain row new where x: "x = (row, new)"
      by (cases x)
    with xin have "row \<in> set t" "new \<in> set src"
      by (auto dest: set_zip_leftD set_zip_rightD)
    then have "length row = n" "length new = nat (b - a)"
      using assms by (auto simp: rect_def)
    then show "(case x of (row, src_row) \<Rightarrow> setitem_row row (Some a) (Some b) src_row) =
               Inr (case x of (row, new) \<Rightarrow> take (nat a) row @ new @ drop (nat b) row)"
      using x assms setitem_row_exact[of a b row new] by simp
  qed
  then show ?thesis
    using l by (simp add: setitem_cols_def broadcast_def bind_err_simps)
qed

lemma shape1_rect: "rect B S t \<Longrightarrow> 0 < B \<Longrightarrow> shape1 t = S"
  by (cases t) (auto simp: rect_def shape1_def)

lemma getitem_cols_prefix:
  assumes "rect B n t" "0 \<le> b" "b \<le> int n"
  shows "getitem_cols t None (Some b) = map (take (nat b)) t"
  using assms
  by (auto simp: getitem_cols_def py_slice_def Let_def slice_start_def slice_stop_def
      slice_bound_in rect_def)


subsection \<open>The two branches of the append\<close>

lemma map2_rect_cong:
  assumes "rect B n t" "rect B S src"
    and "\<And>row new. length row = n \<Longrightarrow> length new = S \<Longrightarrow> f row new = g row new"
  shows "map2 f t src = map2 g t src"
proof (rule map_cong[OF refl])
  fix x assume xin: "x \<in> set (zip t src)"
  obtain row new where x: "x = (row, new)"
    by (cases x)
  with xin have "row \<in> set t" "new \<in> set src"
    by (auto dest: set_zip_leftD set_zip_rightD)
  then have "length row = n" "length new = S"
    using assms(1,2) by (auto simp: rect_def)
  then show "(case x of (a, b) \<Rightarrow> f a b) = (case x of (a, b) \<Rightarrow> g a b)"
    using assms(3) x by simp
qed

lemma rect_map2:
  assumes "rect B n t" "rect B S src"
    and "\<And>row new. length row = n \<Longrightarrow> length new = S \<Longrightarrow> length (f row new) = m"
  shows "rect B m (map2 f t src)"
proof -
  have "length r = m" if "r \<in> set (map2 f t src)" for r
  proof -
    from that obtain row new where "(row, new) \<in> set (zip t src)" "r = f row new"
      by auto
    then have "row \<in> set t" "new \<in> set src"
      by (auto dest: set_zip_leftD set_zip_rightD)
    then have "length row = n" "length new = S"
      using assms(1,2) by (auto simp: rect_def)
    then show ?thesis using assms(3) \<open>r = f row new\<close> by simp
  qed
  then show ?thesis
    using assms(1,2) by (simp add: rect_def)
qed

lemma map_map2: "map h (map2 f t src) = map2 (\<lambda>a b. h (f a b)) t src"
  by (simp add: case_prod_unfold)

lemma prefill_in_budget:
  assumes k: "rect B n (draft_k_cache self)" and v: "rect B n (draft_v_cache self)"
    and kv: "rect B S k_val" and vv: "rect B S v_val" and B: "0 < B"
    and c: "0 \<le> c" and fit: "c + int S \<le> streaming_budget self"
    and cap: "streaming_budget self \<le> int n"
  shows "prefill self (c # rest) k_val v_val =
         Inr (self\<lparr>draft_k_cache := map2 (write_at (nat c)) (draft_k_cache self) k_val,
                   draft_v_cache := map2 (write_at (nat c)) (draft_v_cache self) v_val\<rparr>,
              map2 (\<lambda>row new. take (nat c) row @ new) (draft_k_cache self) k_val,
              map2 (\<lambda>row new. take (nat c) row @ new) (draft_v_cache self) v_val)"
proof -
  have s1: "shape1 k_val = S"
    using kv B by (rule shape1_rect)
  have b: "c \<le> c + int S" "c + int S \<le> int n" "nat (c + int S - c) = S" "0 \<le> c + int S"
    using c fit cap by simp_all
  have w: "take (nat c) row @ new @ drop (nat (c + int S)) row = write_at (nat c) row new"
    if "length row = n" "length new = S" for row new :: "'a list"
    using that c by (simp add: write_at_def nat_add_distrib)
  have sk: "setitem_cols (draft_k_cache self) (Some c) (Some (c + int S)) k_val =
            Inr (map2 (write_at (nat c)) (draft_k_cache self) k_val)"
    using setitem_cols_exact[OF k _ c b(1,2), of k_val] kv b(3)
      map2_rect_cong[where g = "write_at (nat c)", OF k kv w]
    by simp
  have sv: "setitem_cols (draft_v_cache self) (Some c) (Some (c + int S)) v_val =
            Inr (map2 (write_at (nat c)) (draft_v_cache self) v_val)"
    using setitem_cols_exact[OF v _ c b(1,2), of v_val] vv b(3)
      map2_rect_cong[where g = "write_at (nat c)", OF v vv w]
    by simp
  have lw: "length (write_at (nat c) row new) = n"
    if "length row = n" "length new = S" for row new :: "'a list"
    using that b c by (simp add: write_at_def)
  have t: "take (nat (c + int S)) (write_at (nat c) row new) = take (nat c) row @ new"
    if "length row = n" "length new = S" for row new :: "'a list"
    using that b c by (simp add: write_at_def nat_add_distrib min_def)
  have rk: "rect B n (map2 (write_at (nat c)) (draft_k_cache self) k_val)"
    by (rule rect_map2[where f = "write_at (nat c)", OF k kv lw])
  have rv: "rect B n (map2 (write_at (nat c)) (draft_v_cache self) v_val)"
    by (rule rect_map2[where f = "write_at (nat c)", OF v vv lw])
  have tk: "map2 (\<lambda>row new. take (nat (c + int S)) (write_at (nat c) row new)) (draft_k_cache self) k_val =
            map2 (\<lambda>row new. take (nat c) row @ new) (draft_k_cache self) k_val"
    by (rule map2_rect_cong[OF k kv]) (rule t)
  have tv: "map2 (\<lambda>row new. take (nat (c + int S)) (write_at (nat c) row new)) (draft_v_cache self) v_val =
            map2 (\<lambda>row new. take (nat c) row @ new) (draft_v_cache self) v_val"
    by (rule map2_rect_cong[OF v vv]) (rule t)
  have gk: "getitem_cols (map2 (write_at (nat c)) (draft_k_cache self) k_val) None (Some (c + int S)) =
            map2 (\<lambda>row new. take (nat c) row @ new) (draft_k_cache self) k_val"
    using getitem_cols_prefix[OF rk b(4,2)] tk by (simp only: map_map2)
  have gv: "getitem_cols (map2 (write_at (nat c)) (draft_v_cache self) v_val) None (Some (c + int S)) =
            map2 (\<lambda>row new. take (nat c) row @ new) (draft_v_cache self) v_val"
    using getitem_cols_prefix[OF rv b(4,2)] tv by (simp only: map_map2)
  show ?thesis
    using fit by (simp add: prefill_def Let_def s1 sk sv gk gv bind_err_simps)
qed


lemma map2_map2_right:
  "length t = length src \<Longrightarrow> map2 f t (map2 g t src) = map2 (\<lambda>a b. f a (g a b)) t src"
  by (induction t src rule: list_induct2) simp_all

lemma map2_map_left: "map2 f (map h t) src = map2 (\<lambda>a b. f (h a) b) t src"
  by (simp add: zip_map1 case_prod_unfold)

lemma prefill_overflow:
  assumes k: "rect B n (draft_k_cache self)" and v: "rect B n (draft_v_cache self)"
    and kv: "rect B S k_val" and vv: "rect B S v_val" and B: "0 < B"
    and w: "16 < streaming_budget self" and cap: "streaming_budget self \<le> int n"
    and over: "streaming_budget self < c + int S"
  shows "prefill self (c # rest) k_val v_val =
         Inr (self\<lparr>draft_k_cache := map2 (shift_in (nat (streaming_budget self))) (draft_k_cache self) k_val,
                   draft_v_cache := map2 (shift_in (nat (streaming_budget self))) (draft_v_cache self) v_val\<rparr>,
              map (take (nat (streaming_budget self)))
                (map2 (shift_in (nat (streaming_budget self))) (draft_k_cache self) k_val),
              map (take (nat (streaming_budget self)))
                (map2 (shift_in (nat (streaming_budget self))) (draft_v_cache self) v_val))"
proof -
  define sb where "sb = nat (streaming_budget self)"
  have sb: "streaming_budget self = int sb" "16 < sb" "sb \<le> n"
    using w cap by (simp_all add: sb_def)
  have s1: "shape1 k_val = S"
    using kv B by (rule shape1_rect)
  have main: "bind_err (cat_cols (getitem_cols t (Some 16) (Some (int sb))) x) (\<lambda>cat_x.
                setitem_cols t (Some 16) (Some (int sb))
                  (getitem_cols cat_x (Some (- int sb + 16)) None)) =
              Inr (map2 (shift_in sb) t x) \<and>
              getitem_cols (map2 (shift_in sb) t x) None (Some (int sb)) =
              map (take sb) (map2 (shift_in sb) t x)"
    if t: "rect B n t" and x: "rect B S x" for t x :: "'a list list"
  proof -
    have l: "length t = length x"
      using t x by (simp add: rect_def)
    have g: "getitem_cols t (Some 16) (Some (int sb)) = map (\<lambda>row. take (sb - 16) (drop 16 row)) t"
      using t sb by (auto simp: getitem_cols_def py_slice_def Let_def slice_start_def
          slice_stop_def slice_bound_in rect_def)
    have c: "cat_cols (getitem_cols t (Some 16) (Some (int sb))) x =
             Inr (map2 (\<lambda>row new. take (sb - 16) (drop 16 row) @ new) t x)"
      using l by (simp add: g cat_cols_def map2_map_left)
    have r1: "rect B (sb - 16 + S) (map2 (\<lambda>row new. take (sb - 16) (drop 16 row) @ new) t x)"
      by (rule rect_map2[OF t x]) (use sb in simp)
    have sl: "py_slice row (Some (- int sb + 16)) None = drop S row"
      if "length row = sb - 16 + S" for row :: "'a list"
      using that sb by (simp add: py_slice_def Let_def slice_start_def slice_stop_def slice_bound_def)
    have g2: "getitem_cols (map2 (\<lambda>row new. take (sb - 16) (drop 16 row) @ new) t x)
                (Some (- int sb + 16)) None =
              map2 (\<lambda>row new. drop S (take (sb - 16) (drop 16 row) @ new)) t x"
    proof -
      have "py_slice r (Some (- int sb + 16)) None = drop S r"
        if "r \<in> set (map2 (\<lambda>row new. take (sb - 16) (drop 16 row) @ new) t x)" for r
        using r1 sl that unfolding rect_def by blast
      then have "getitem_cols (map2 (\<lambda>row new. take (sb - 16) (drop 16 row) @ new) t x)
                   (Some (- int sb + 16)) None =
                 map (drop S) (map2 (\<lambda>row new. take (sb - 16) (drop 16 row) @ new) t x)"
        unfolding getitem_cols_def by (intro map_cong refl)
      then show ?thesis by (simp only: map_map2)
    qed
    have r2: "rect B (nat (int sb - 16)) (map2 (\<lambda>row new. drop S (take (sb - 16) (drop 16 row) @ new)) t x)"
      by (rule rect_map2[OF t x]) (use sb in simp)
    have sh: "take (nat 16) row @ drop S (take (sb - 16) (drop 16 row) @ new) @ drop (nat (int sb)) row =
              shift_in sb row new"
      if "length row = n" "length new = S" for row new :: "'a list"
      using that by (simp add: shift_in_def Let_def)
    have st: "setitem_cols t (Some 16) (Some (int sb))
                (map2 (\<lambda>row new. drop S (take (sb - 16) (drop 16 row) @ new)) t x) =
              Inr (map2 (shift_in sb) t x)"
    proof -
      have "setitem_cols t (Some 16) (Some (int sb))
                (map2 (\<lambda>row new. drop S (take (sb - 16) (drop 16 row) @ new)) t x) =
            Inr (map2 (\<lambda>row new. take (nat 16) row @ new @ drop (nat (int sb)) row) t
                  (map2 (\<lambda>row new. drop S (take (sb - 16) (drop 16 row) @ new)) t x))"
        by (rule setitem_cols_exact[OF t r2]) (use sb in simp_all)
      also have "map2 (\<lambda>row new. take (nat 16) row @ new @ drop (nat (int sb)) row) t
                  (map2 (\<lambda>row new. drop S (take (sb - 16) (drop 16 row) @ new)) t x) =
                 map2 (\<lambda>row new. take (nat 16) row @ drop S (take (sb - 16) (drop 16 row) @ new) @
                         drop (nat (int sb)) row) t x"
        by (rule map2_map2_right[OF l])
      also have "\<dots> = map2 (shift_in sb) t x"
        by (rule map2_rect_cong[OF t x]) (rule sh)
      finally show ?thesis .
    qed
    have r3: "rect B n (map2 (shift_in sb) t x)"
      by (rule rect_map2[OF t x]) (use sb in \<open>simp add: shift_in_def Let_def\<close>)
    have "getitem_cols (map2 (shift_in sb) t x) None (Some (int sb)) =
          map (take (nat (int sb))) (map2 (shift_in sb) t x)"
      by (rule getitem_cols_prefix[OF r3]) (use sb in simp_all)
    moreover have "bind_err (cat_cols (getitem_cols t (Some 16) (Some (int sb))) x) (\<lambda>cat_x.
                setitem_cols t (Some 16) (Some (int sb))
                  (getitem_cols cat_x (Some (- int sb + 16)) None)) =
              Inr (map2 (shift_in sb) t x)"
      by (simp only: c bind_err_simps g2 st)
    ultimately show ?thesis
      by simp
  qed
  have nb: "\<not> c + int S \<le> int sb"
    using over sb by simp
  from main[OF k kv] main[OF v vv] nb show ?thesis
    by (auto simp: prefill_def Let_def s1 sb(1) sb_def[symmetric] bind_err_Inr_iff)
qed


subsection \<open>The streaming window cache\<close>

lemma run_prefill_sink:
  assumes "16 \<le> c" "cursors_advance c ops" "run_prefill self ops = Inr (self', rets)"
  shows "map (take 16) (draft_k_cache self') = map (take 16) (draft_k_cache self) \<and>
         map (take 16) (draft_v_cache self') = map (take 16) (draft_v_cache self)"
  using assms
proof (induction ops arbitrary: c self rets)
  case Nil
  then show ?case by simp
next
  case (Cons op ops)
  obtain cache_len k_val v_val where op: "op = (cache_len, k_val, v_val)"
    by (cases op)
  from Cons.prems(2) op obtain c' rest where cl: "cache_len = c' # rest" and le: "c \<le> c'"
    and adv: "cursors_advance (c' + int (shape1 k_val)) ops"
    by (cases cache_len) auto
  from Cons.prems(3) op obtain self1 ret rets' where
    p: "prefill self cache_len k_val v_val = Inr (self1, ret)" and
    r: "run_prefill self1 ops = Inr (self', rets')"
    by (auto simp: bind_err_Inr_iff)
  have c16: "16 \<le> c'" using Cons.prems(1) le by simp
  then have "16 \<le> c' + int (shape1 k_val)" by simp
  from Cons.IH[OF this adv r] prefill_sink[OF cl c16 p]
  show ?case by simp
qed

text \<open>
  C1. Sink invariance. After a first prefill append that leaves the cursor at 16 or beyond
  (it has filled the sink), any sequence of later appends whose cursors advance
  monotonically, and that completes, leaves the entries \<open>[0, 16)\<close> of every row of the draft
  key cache and of the draft value cache exactly as the first prefill left them.
\<close>

theorem sink_invariance:
  assumes "prefill self0 (c0 # rest0) k0 v0 = Inr (self1, ret1)"
    and "16 \<le> c0 + int (shape1 k0)"
    and "cursors_advance (c0 + int (shape1 k0)) ops"
    and "run_prefill self1 ops = Inr (self2, rets)"
  shows "map (take 16) (draft_k_cache self2) = map (take 16) (draft_k_cache self1) \<and>
         map (take 16) (draft_v_cache self2) = map (take 16) (draft_v_cache self1)"
  using assms(2-4) by (rule run_prefill_sink)


theorem sink_invariance_witness:
  "prefill ex_cache [0] [ex_blocks 1 17] [ex_blocks 21 37] =
     Inr (ex_after_first, [ex_blocks 1 17], [ex_blocks 21 37]) \<and>
   cursors_advance 16 ex_ops \<and>
   \<not> isl (run_prefill ex_after_first ex_ops) \<and>
   map (take 16) (draft_k_cache (fst (projr (run_prefill ex_after_first ex_ops)))) =
     map (take 16) (draft_k_cache ex_after_first) \<and>
   map (take 16) (draft_v_cache (fst (projr (run_prefill ex_after_first ex_ops)))) =
     map (take 16) (draft_v_cache ex_after_first) \<and>
   draft_k_cache (fst (projr (run_prefill ex_after_first ex_ops))) =
     [ex_blocks 1 17 @ ex_blocks 18 20 @ ex_blocks 0 1 @ ex_blocks 0 1]"
proof -
  have h1: "prefill ex_cache [0] [ex_blocks 1 17] [ex_blocks 21 37] =
     Inr (ex_after_first, [ex_blocks 1 17], [ex_blocks 21 37])"
    by code_simp
  have h2: "16 \<le> 0 + int (shape1 [ex_blocks 1 17])"
    by code_simp
  have h3: "cursors_advance (0 + int (shape1 [ex_blocks 1 17])) ex_ops"
    by code_simp
  have h3': "cursors_advance 16 ex_ops"
    by code_simp
  have h4: "\<not> isl (run_prefill ex_after_first ex_ops)"
    by code_simp
  then have h4': "run_prefill ex_after_first ex_ops =
      Inr (fst (projr (run_prefill ex_after_first ex_ops)),
           snd (projr (run_prefill ex_after_first ex_ops)))"
    by (cases "run_prefill ex_after_first ex_ops") simp_all
  have e: "draft_k_cache (fst (projr (run_prefill ex_after_first ex_ops))) =
     [ex_blocks 1 17 @ ex_blocks 18 20 @ ex_blocks 0 1 @ ex_blocks 0 1]"
    by code_simp
  from sink_invariance[OF h1 h2 h3 h4'] h1 h3' h4 e show ?thesis
    by blast
qed


lemma shift_in_parts:
  assumes "length row = n" "16 < budget" "budget \<le> n"
  shows "take 16 (shift_in budget row new) = take 16 row"
    and "drop budget (shift_in budget row new) = drop budget row"
    and "take (budget - 16) (drop 16 (shift_in budget row new)) =
           drop (length new) (take (budget - 16) (drop 16 row) @ new)"
    and "length (shift_in budget row new) = n"
  using assms by (simp_all add: shift_in_def Let_def)

text \<open>
  C2, as amended. For a cache whose draft buffers hold \<open>B\<close> rows of \<open>n\<close> positions, with
  \<open>16 < streaming_budget \<le> n\<close>, a cursor \<open>c \<ge> 0\<close> and new keys and values of \<open>B\<close> rows and
  \<open>S\<close> positions: when \<open>c + S \<le> streaming_budget\<close> the append writes the new entries at
  \<open>[c, c + S)\<close> of every row and returns the prefix \<open>[0, c + S)\<close>; otherwise it leaves
  \<open>[0, 16)\<close> and everything from \<open>streaming_budget\<close> on untouched, replaces the region
  \<open>[16, streaming_budget)\<close> by the last \<open>streaming_budget - 16\<close> entries of the old region
  followed by the new entries, and returns \<open>[0, streaming_budget)\<close>. When
  \<open>S \<le> streaming_budget - 16\<close> that region is the old one without its \<open>S\<close> oldest entries,
  followed by all the new entries.
\<close>

theorem streaming_append_two_cases:
  fixes self :: "'a KVCache"
  assumes "rect B n (draft_k_cache self)" "rect B n (draft_v_cache self)"
    and "rect B S k_val" "rect B S v_val" "0 < B"
    and "16 < streaming_budget self" "streaming_budget self \<le> int n" "0 \<le> c"
  shows
   "(c + int S \<le> streaming_budget self \<longrightarrow>
       prefill self (c # rest) k_val v_val =
         Inr (self\<lparr>draft_k_cache := map2 (write_at (nat c)) (draft_k_cache self) k_val,
                   draft_v_cache := map2 (write_at (nat c)) (draft_v_cache self) v_val\<rparr>,
              map (take (nat c + S)) (map2 (write_at (nat c)) (draft_k_cache self) k_val),
              map (take (nat c + S)) (map2 (write_at (nat c)) (draft_v_cache self) v_val))) \<and>
    (streaming_budget self < c + int S \<longrightarrow>
       prefill self (c # rest) k_val v_val =
         Inr (self\<lparr>draft_k_cache :=
                     map2 (shift_in (nat (streaming_budget self))) (draft_k_cache self) k_val,
                   draft_v_cache :=
                     map2 (shift_in (nat (streaming_budget self))) (draft_v_cache self) v_val\<rparr>,
              map (take (nat (streaming_budget self)))
                (map2 (shift_in (nat (streaming_budget self))) (draft_k_cache self) k_val),
              map (take (nat (streaming_budget self)))
                (map2 (shift_in (nat (streaming_budget self))) (draft_v_cache self) v_val))) \<and>
    (\<forall>(row :: 'a list) new.
       length row = n \<and> length new = S \<and> S \<le> nat (streaming_budget self) - 16 \<longrightarrow>
       shift_in (nat (streaming_budget self)) row new =
         take 16 row @ drop S (take (nat (streaming_budget self) - 16) (drop 16 row)) @ new @
         drop (nat (streaming_budget self)) row)"
proof -
  define sb where "sb = nat (streaming_budget self)"
  have t: "take (nat c + S) (write_at (nat c) row new) = take (nat c) row @ new"
    if "length row = n" "length new = S" "c + int S \<le> streaming_budget self"
    for row new :: "'a list"
    using that assms(7,8) by (simp add: write_at_def min_def)
  have m: "map2 (\<lambda>row new. take (nat c) row @ new) t x =
           map (take (nat c + S)) (map2 (write_at (nat c)) t x)"
    if "rect B n t" "rect B S x" "c + int S \<le> streaming_budget self" for t x :: "'a list list"
    unfolding map_map2
    by (rule map2_rect_cong[OF that(1,2)]) (simp add: t that(3))
  have A: "prefill self (c # rest) k_val v_val =
         Inr (self\<lparr>draft_k_cache := map2 (write_at (nat c)) (draft_k_cache self) k_val,
                   draft_v_cache := map2 (write_at (nat c)) (draft_v_cache self) v_val\<rparr>,
              map (take (nat c + S)) (map2 (write_at (nat c)) (draft_k_cache self) k_val),
              map (take (nat c + S)) (map2 (write_at (nat c)) (draft_v_cache self) v_val))"
    if fit: "c + int S \<le> streaming_budget self"
    using prefill_in_budget[OF assms(1-5) assms(8) fit assms(7), of rest]
    by (simp only: m[OF assms(1,3) fit] m[OF assms(2,4) fit])
  have B: "prefill self (c # rest) k_val v_val =
         Inr (self\<lparr>draft_k_cache := map2 (shift_in sb) (draft_k_cache self) k_val,
                   draft_v_cache := map2 (shift_in sb) (draft_v_cache self) v_val\<rparr>,
              map (take sb) (map2 (shift_in sb) (draft_k_cache self) k_val),
              map (take sb) (map2 (shift_in sb) (draft_v_cache self) v_val))"
    if "streaming_budget self < c + int S"
    unfolding sb_def by (rule prefill_overflow[OF assms(1-7) that])
  have C: "shift_in sb row new =
         take 16 row @ drop S (take (sb - 16) (drop 16 row)) @ new @ drop sb row"
    if "length row = n \<and> length new = S \<and> S \<le> sb - 16" for row new :: "'a list"
    using that assms(6,7) by (simp add: shift_in_def Let_def sb_def)
  from A B C show ?thesis
    unfolding sb_def by blast
qed


theorem streaming_append_counterexample:
  "draft_k_cache ex_seventeen = [ex_blocks 1 18 @ replicate 3 (ex_block 0)] \<and>
   draft_k_cache (fst (projr (prefill ex_seventeen [17] [ex_blocks 51 54] [ex_blocks 61 64]))) =
     [ex_blocks 1 17 @ ex_blocks 52 54 @ replicate 2 (ex_block 0)] \<and>
   \<not> suffix (ex_blocks 51 54)
       (take 2 (drop 16 (hd (draft_k_cache
          (fst (projr (prefill ex_seventeen [17] [ex_blocks 51 54] [ex_blocks 61 64]))))))) \<and>
   streaming_budget ex_fifteen16 = 16 \<and>
   draft_k_cache ex_fifteen16 = [ex_blocks 1 16 @ replicate 1 (ex_block 0)] \<and>
   prefill ex_fifteen16 [15] [ex_blocks 16 18] [ex_blocks 36 38] = Inl RuntimeError"
  by code_simp

theorem streaming_append_two_cases_witness:
  "rect 1 20 (draft_k_cache ex_after_first) \<and> rect 1 20 (draft_v_cache ex_after_first) \<and>
   16 < streaming_budget ex_after_first \<and> streaming_budget ex_after_first \<le> 20 \<and>
   prefill ex_after_first [16] [ex_blocks 17 19] [ex_blocks 37 39] =
     Inr (ex_after_first
            \<lparr>draft_k_cache := map2 (write_at 16) (draft_k_cache ex_after_first) [ex_blocks 17 19],
             draft_v_cache := map2 (write_at 16) (draft_v_cache ex_after_first) [ex_blocks 37 39]\<rparr>,
          map (take 18) (map2 (write_at 16) (draft_k_cache ex_after_first) [ex_blocks 17 19]),
          map (take 18) (map2 (write_at 16) (draft_v_cache ex_after_first) [ex_blocks 37 39])) \<and>
   prefill ex_after_first [17] [ex_blocks 51 54] [ex_blocks 61 64] =
     Inr (ex_after_first
            \<lparr>draft_k_cache := map2 (shift_in 18) (draft_k_cache ex_after_first) [ex_blocks 51 54],
             draft_v_cache := map2 (shift_in 18) (draft_v_cache ex_after_first) [ex_blocks 61 64]\<rparr>,
          map (take 18) (map2 (shift_in 18) (draft_k_cache ex_after_first) [ex_blocks 51 54]),
          map (take 18) (map2 (shift_in 18) (draft_v_cache ex_after_first) [ex_blocks 61 64]))"
proof -
  have k: "rect 1 20 (draft_k_cache ex_after_first)" and v: "rect 1 20 (draft_v_cache ex_after_first)"
    by code_simp+
  have b: "16 < streaming_budget ex_after_first" "streaming_budget ex_after_first \<le> int 20"
    by code_simp+
  have sb: "streaming_budget ex_after_first = 18"
    by code_simp
  have r2: "rect 1 2 [ex_blocks 17 19]" "rect 1 2 [ex_blocks 37 39]"
    by code_simp+
  have r3: "rect 1 3 [ex_blocks 51 54]" "rect 1 3 [ex_blocks 61 64]"
    by code_simp+
  have one: "0 < (1::nat)" by simp
  have c16: "(0::int) \<le> 16" and c17: "(0::int) \<le> 17" by simp_all
  from streaming_append_two_cases[OF k v r2 one b c16, of "[]"]
       streaming_append_two_cases[OF k v r3 one b c17, of "[]"] k v b sb
  show ?thesis by simp
qed


lemma run_prefill_lossless:
  fixes self :: "'a KVCache"
  assumes "rect B n (draft_k_cache self)" "rect B n (draft_v_cache self)" "0 < B"
    and "streaming_budget self \<le> int n" "0 \<le> c"
    and "in_budget_chain B (streaming_budget self) c ops"
  shows "\<exists>self' rets. run_prefill self ops = Inr (self', rets) \<and>
           map (take (nat c + appended_total ops)) (draft_k_cache self') =
             cat_onto (map (take (nat c)) (draft_k_cache self)) (map (fst \<circ> snd) ops) \<and>
           map (take (nat c + appended_total ops)) (draft_v_cache self') =
             cat_onto (map (take (nat c)) (draft_v_cache self)) (map (snd \<circ> snd) ops) \<and>
           map fst rets = running_cat (map (take (nat c)) (draft_k_cache self)) (map (fst \<circ> snd) ops) \<and>
           map snd rets = running_cat (map (take (nat c)) (draft_v_cache self)) (map (snd \<circ> snd) ops)"
  using assms
proof (induction ops arbitrary: self c)
  case Nil
  then show ?case by (simp add: appended_total_def)
next
  case (Cons op ops)
  obtain cache_len k_val v_val where op: "op = (cache_len, k_val, v_val)"
    by (cases op)
  define S where "S = shape1 k_val"
  from Cons.prems(6) op obtain rest where cl: "cache_len = c # rest"
    and kv: "rect B S k_val" and vv: "rect B S v_val"
    and fit: "c + int S \<le> streaming_budget self"
    and ch: "in_budget_chain B (streaming_budget self) (c + int S) ops"
    by (cases cache_len) (auto simp: S_def)
  define self1 where "self1 = self\<lparr>draft_k_cache := map2 (write_at (nat c)) (draft_k_cache self) k_val,
                   draft_v_cache := map2 (write_at (nat c)) (draft_v_cache self) v_val\<rparr>"
  have p: "prefill self cache_len k_val v_val =
         Inr (self1,
              map2 (\<lambda>row new. take (nat c) row @ new) (draft_k_cache self) k_val,
              map2 (\<lambda>row new. take (nat c) row @ new) (draft_v_cache self) v_val)"
    unfolding cl self1_def
    by (rule prefill_in_budget[OF Cons.prems(1,2) kv vv Cons.prems(3,5) fit Cons.prems(4)])
  have lw: "length (write_at (nat c) row new) = n"
    if "length row = n" "length new = S" for row new :: "'a list"
    using that fit Cons.prems(4,5) by (simp add: write_at_def)
  have tw: "take (nat (c + int S)) (write_at (nat c) row new) = take (nat c) row @ new"
    if "length row = n" "length new = S" for row new :: "'a list"
    using that fit Cons.prems(4,5) by (simp add: write_at_def nat_add_distrib min_def)
  have pre: "map (take (nat (c + int S))) (map2 (write_at (nat c)) t x) = map2 (@) (map (take (nat c)) t) x"
    if "rect B n t" "rect B S x" for t x :: "'a list list"
    unfolding map_map2 map2_map_left
    by (rule map2_rect_cong[OF that]) (rule tw)
  have r1: "rect B n (draft_k_cache self1)" "rect B n (draft_v_cache self1)"
    unfolding self1_def
    using rect_map2[where f = "write_at (nat c)", OF Cons.prems(1) kv lw]
      rect_map2[where f = "write_at (nat c)", OF Cons.prems(2) vv lw] by simp_all
  have sb1: "streaming_budget self1 = streaming_budget self"
    by (simp add: self1_def)
  have c1: "0 \<le> c + int S" using Cons.prems(5) by simp
  from Cons.IH[OF r1 Cons.prems(3) _ c1, unfolded sb1, OF Cons.prems(4) ch]
  obtain self' rets where
    run: "run_prefill self1 ops = Inr (self', rets)" and
    fk: "map (take (nat (c + int S) + appended_total ops)) (draft_k_cache self') =
           cat_onto (map (take (nat (c + int S))) (draft_k_cache self1)) (map (fst \<circ> snd) ops)" and
    fv: "map (take (nat (c + int S) + appended_total ops)) (draft_v_cache self') =
           cat_onto (map (take (nat (c + int S))) (draft_v_cache self1)) (map (snd \<circ> snd) ops)" and
    rk: "map fst rets = running_cat (map (take (nat (c + int S))) (draft_k_cache self1)) (map (fst \<circ> snd) ops)" and
    rv: "map snd rets = running_cat (map (take (nat (c + int S))) (draft_v_cache self1)) (map (snd \<circ> snd) ops)"
    by blast
  have pk: "map (take (nat (c + int S))) (draft_k_cache self1) =
            map2 (@) (map (take (nat c)) (draft_k_cache self)) k_val"
    unfolding self1_def using pre[OF Cons.prems(1) kv] by simp
  have pv: "map (take (nat (c + int S))) (draft_v_cache self1) =
            map2 (@) (map (take (nat c)) (draft_v_cache self)) v_val"
    unfolding self1_def using pre[OF Cons.prems(2) vv] by simp
  have tot: "nat c + appended_total (op # ops) = nat (c + int S) + appended_total ops"
    using Cons.prems(5) by (simp add: appended_total_def op S_def nat_add_distrib)
  have retk: "map2 (\<lambda>row new. take (nat c) row @ new) (draft_k_cache self) k_val =
              map2 (@) (map (take (nat c)) (draft_k_cache self)) k_val"
    and retv: "map2 (\<lambda>row new. take (nat c) row @ new) (draft_v_cache self) v_val =
              map2 (@) (map (take (nat c)) (draft_v_cache self)) v_val"
    by (simp_all only: map2_map_left)
  have "run_prefill self (op # ops) =
        Inr (self', (map2 (@) (map (take (nat c)) (draft_k_cache self)) k_val,
                     map2 (@) (map (take (nat c)) (draft_v_cache self)) v_val) # rets)"
    by (simp add: op p run bind_err_simps retk retv)
  then show ?case
    unfolding tot using fk fv rk rv by (simp add: op pk pv comp_def)
qed

text \<open>
  C3. No loss below the budget. Appends that start at cursor 0 on a cache of \<open>B\<close> rows, each
  with its cursor equal to the total appended so far and keys and values of \<open>B\<close> rows, the
  total never exceeding the budget (which the buffer holds), all complete; afterwards the
  slice \<open>[0, total)\<close> of the key (value) cache is the concatenation of all appended keys
  (values) in order, and the call number \<open>i\<close> returned the concatenation of the first \<open>i\<close>
  appended tensors.
\<close>

theorem lossless_below_budget:
  fixes self :: "'a KVCache"
  assumes "rect B n (draft_k_cache self)" "rect B n (draft_v_cache self)" "0 < B"
    and "streaming_budget self \<le> int n"
    and "in_budget_chain B (streaming_budget self) 0 ops"
  shows "\<not> isl (run_prefill self ops) \<and>
         map (take (appended_total ops)) (draft_k_cache (fst (projr (run_prefill self ops)))) =
           cat_onto (replicate B []) (map (fst \<circ> snd) ops) \<and>
         map (take (appended_total ops)) (draft_v_cache (fst (projr (run_prefill self ops)))) =
           cat_onto (replicate B []) (map (snd \<circ> snd) ops) \<and>
         map fst (snd (projr (run_prefill self ops))) =
           running_cat (replicate B []) (map (fst \<circ> snd) ops) \<and>
         map snd (snd (projr (run_prefill self ops))) =
           running_cat (replicate B []) (map (snd \<circ> snd) ops)"
proof -
  have e: "map (take (nat 0)) t = replicate B []" if "rect B n t" for t :: "'a list list"
    using that by (simp add: rect_def map_replicate_const)
  have z: "(0::int) \<le> 0" by simp
  from run_prefill_lossless[OF assms(1-4) z assms(5)] show ?thesis
    unfolding e[OF assms(1)] e[OF assms(2)] by auto
qed

theorem lossless_below_budget_witness:
  "rect 1 20 (draft_k_cache ex_cache) \<and> rect 1 20 (draft_v_cache ex_cache) \<and>
   streaming_budget ex_cache \<le> 20 \<and>
   in_budget_chain 1 18 0 (([0], [ex_blocks 1 17], [ex_blocks 21 37]) # take 1 ex_ops) \<and>
   appended_total (([0], [ex_blocks 1 17], [ex_blocks 21 37]) # take 1 ex_ops) = 18 \<and>
   map (take 18) (draft_k_cache (fst (projr (run_prefill ex_cache
        (([0], [ex_blocks 1 17], [ex_blocks 21 37]) # take 1 ex_ops))))) = [ex_blocks 1 19] \<and>
   map fst (snd (projr (run_prefill ex_cache
        (([0], [ex_blocks 1 17], [ex_blocks 21 37]) # take 1 ex_ops)))) =
     [[ex_blocks 1 17], [ex_blocks 1 19]]"
proof -
  have k: "rect 1 20 (draft_k_cache ex_cache)" and v: "rect 1 20 (draft_v_cache ex_cache)"
    by code_simp+
  have b: "streaming_budget ex_cache \<le> int 20"
    by code_simp
  have sb: "streaming_budget ex_cache = 18"
    by code_simp
  have ch: "in_budget_chain 1 18 0 (([0], [ex_blocks 1 17], [ex_blocks 21 37]) # take 1 ex_ops)"
    by code_simp
  have tot: "appended_total (([0], [ex_blocks 1 17], [ex_blocks 21 37]) # take 1 ex_ops) = 18"
    by code_simp
  have c1: "cat_onto (replicate 1 [])
       (map (fst \<circ> snd) (([0], [ex_blocks 1 17], [ex_blocks 21 37]) # take 1 ex_ops)) = [ex_blocks 1 19]"
    by code_simp
  have c2: "running_cat (replicate 1 [])
       (map (fst \<circ> snd) (([0], [ex_blocks 1 17], [ex_blocks 21 37]) # take 1 ex_ops)) =
       [[ex_blocks 1 17], [ex_blocks 1 19]]"
    by code_simp
  have one: "0 < (1::nat)" by simp
  from lossless_below_budget[OF k v one b, unfolded sb, OF ch] k v b ch tot c1 c2
  show ?thesis by simp
qed


text \<open>
  C4, as amended. The append uses one cursor for the whole batch, the first element of
  the cursor vector: the other elements have no effect on the result, and (within the
  budget) the keys and values of every sequence \<open>i\<close> of the batch are written at that same
  offset \<open>cache_seqlens[0]\<close> of row \<open>i\<close>.
\<close>

theorem one_cursor_for_the_batch:
  fixes self :: "'a KVCache"
  shows "prefill self (c # rest) k_val v_val = prefill self [c] k_val v_val \<and>
   (rect B n (draft_k_cache self) \<and> rect B n (draft_v_cache self) \<and>
    rect B S k_val \<and> rect B S v_val \<and> 0 < B \<and> 0 \<le> c \<and>
    c + int S \<le> streaming_budget self \<and> streaming_budget self \<le> int n \<longrightarrow>
      \<not> isl (prefill self (c # rest) k_val v_val) \<and>
      (\<forall>i<B. draft_k_cache (fst (projr (prefill self (c # rest) k_val v_val))) ! i =
                write_at (nat c) (draft_k_cache self ! i) (k_val ! i) \<and>
              draft_v_cache (fst (projr (prefill self (c # rest) k_val v_val))) ! i =
                write_at (nat c) (draft_v_cache self ! i) (v_val ! i)))"
proof (intro conjI impI)
  show "prefill self (c # rest) k_val v_val = prefill self [c] k_val v_val"
    by (simp add: prefill_def)
next
  assume h: "rect B n (draft_k_cache self) \<and> rect B n (draft_v_cache self) \<and>
    rect B S k_val \<and> rect B S v_val \<and> 0 < B \<and> 0 \<le> c \<and>
    c + int S \<le> streaming_budget self \<and> streaming_budget self \<le> int n"
  then have p: "prefill self (c # rest) k_val v_val =
         Inr (self\<lparr>draft_k_cache := map2 (write_at (nat c)) (draft_k_cache self) k_val,
                   draft_v_cache := map2 (write_at (nat c)) (draft_v_cache self) v_val\<rparr>,
              map2 (\<lambda>row new. take (nat c) row @ new) (draft_k_cache self) k_val,
              map2 (\<lambda>row new. take (nat c) row @ new) (draft_v_cache self) v_val)"
    using prefill_in_budget[of B n self S k_val v_val c rest] by blast
  show "\<not> isl (prefill self (c # rest) k_val v_val)"
    by (simp add: p)
  from h have l: "length (draft_k_cache self) = B" "length (draft_v_cache self) = B"
    "length k_val = B" "length v_val = B"
    by (simp_all add: rect_def)
  show "\<forall>i<B. draft_k_cache (fst (projr (prefill self (c # rest) k_val v_val))) ! i =
                write_at (nat c) (draft_k_cache self ! i) (k_val ! i) \<and>
              draft_v_cache (fst (projr (prefill self (c # rest) k_val v_val))) ! i =
                write_at (nat c) (draft_v_cache self ! i) (v_val ! i)"
    using l by (simp add: p)
qed


theorem one_cursor_counterexample:
  "draft_k_cache (fst (projr
      (prefill ex_cache2 [0, 1] [ex_blocks 1 2, ex_blocks 2 3] [ex_blocks 3 4, ex_blocks 4 5]))) ! 1 =
     ex_blocks 2 3 @ replicate 17 (ex_block 0) \<and>
   draft_k_cache (fst (projr
      (prefill ex_cache2 [0, 1] [ex_blocks 1 2, ex_blocks 2 3] [ex_blocks 3 4, ex_blocks 4 5]))) ! 1 \<noteq>
     write_at 1 (draft_k_cache ex_cache2 ! 1) (ex_blocks 2 3) \<and>
   draft_v_cache (fst (projr
      (prefill ex_cache2 [0, 1] [ex_blocks 1 2, ex_blocks 2 3] [ex_blocks 3 4, ex_blocks 4 5]))) ! 1 =
     ex_blocks 4 5 @ replicate 17 (ex_block 0)"
  by code_simp

theorem one_cursor_for_the_batch_witness:
  "rect 2 18 (draft_k_cache ex_cache2) \<and> rect 2 18 (draft_v_cache ex_cache2) \<and>
   rect 2 1 [ex_blocks 1 2, ex_blocks 2 3] \<and> rect 2 1 [ex_blocks 3 4, ex_blocks 4 5] \<and>
   5 + int 1 \<le> streaming_budget ex_cache2 \<and> streaming_budget ex_cache2 \<le> int 18 \<and>
   prefill ex_cache2 [5, 9] [ex_blocks 1 2, ex_blocks 2 3] [ex_blocks 3 4, ex_blocks 4 5] =
     prefill ex_cache2 [5] [ex_blocks 1 2, ex_blocks 2 3] [ex_blocks 3 4, ex_blocks 4 5] \<and>
   draft_k_cache (fst (projr
      (prefill ex_cache2 [5, 9] [ex_blocks 1 2, ex_blocks 2 3] [ex_blocks 3 4, ex_blocks 4 5]))) ! 1 =
     write_at 5 (draft_k_cache ex_cache2 ! 1) (ex_blocks 2 3)"
proof -
  have h: "rect 2 18 (draft_k_cache ex_cache2)" "rect 2 18 (draft_v_cache ex_cache2)"
    "rect 2 1 [ex_blocks 1 2, ex_blocks 2 3]" "rect 2 1 [ex_blocks 3 4, ex_blocks 4 5]"
    "5 + int 1 \<le> streaming_budget ex_cache2" "streaming_budget ex_cache2 \<le> int 18"
    by code_simp+
  have z: "(0::nat) < 2" "(0::int) \<le> 5" by simp_all
  note t = one_cursor_for_the_batch[of ex_cache2 5 "[9]" "[ex_blocks 1 2, ex_blocks 2 3]"
      "[ex_blocks 3 4, ex_blocks 4 5]" 2 18 1]
  from t have e: "prefill ex_cache2 [5, 9] [ex_blocks 1 2, ex_blocks 2 3] [ex_blocks 3 4, ex_blocks 4 5] =
     prefill ex_cache2 [5] [ex_blocks 1 2, ex_blocks 2 3] [ex_blocks 3 4, ex_blocks 4 5]"
    by (rule conjunct1)
  from t h z have "\<forall>i<2. draft_k_cache (fst (projr
      (prefill ex_cache2 [5, 9] [ex_blocks 1 2, ex_blocks 2 3] [ex_blocks 3 4, ex_blocks 4 5]))) ! i =
     write_at (nat 5) (draft_k_cache ex_cache2 ! i) ([ex_blocks 1 2, ex_blocks 2 3] ! i)"
    by blast
  then have "draft_k_cache (fst (projr
      (prefill ex_cache2 [5, 9] [ex_blocks 1 2, ex_blocks 2 3] [ex_blocks 3 4, ex_blocks 4 5]))) ! 1 =
     write_at (nat 5) (draft_k_cache ex_cache2 ! 1) ([ex_blocks 1 2, ex_blocks 2 3] ! 1)"
    by simp
  then have x: "draft_k_cache (fst (projr
      (prefill ex_cache2 [5, 9] [ex_blocks 1 2, ex_blocks 2 3] [ex_blocks 3 4, ex_blocks 4 5]))) ! 1 =
     write_at 5 (draft_k_cache ex_cache2 ! 1) (ex_blocks 2 3)"
    by simp
  from h e x show ?thesis by blast
qed


subsection \<open>Rotary frequencies and cache setup\<close>

text \<open>
  C5. Long-context rescaling is piecewise. For nonzero factors with
  \<open>low_freq_factor \<noteq> high_freq_factor\<close>, a nonzero original context length and nonzero
  frequencies, the rescaling completes and maps every base frequency \<open>f\<close>, of wavelength
  \<open>2 pi / f\<close>, by the three cases: below \<open>high_wavelen\<close> the frequency is unchanged; above
  \<open>low_wavelen\<close> (the bands being in order, \<open>high_wavelen \<le> low_wavelen\<close>) it is
  \<open>f / scaling_factor\<close>; otherwise it is the blend with the \<open>smooth\<close> of the claim.
\<close>

theorem long_context_rescaling_piecewise:
  assumes "low \<noteq> 0" "high \<noteq> 0" "low \<noteq> high" "old \<noteq> 0" "0 \<notin> set inv_freq"
  shows
   "compute_llama3_parameters inv_freq (Some old) scaling low high =
      Inr (map (long_context_rescale old scaling low high) inv_freq) \<and>
    (\<forall>f\<in>set inv_freq.
       (2 * pi / f < real_of_int old / real_of_int high \<longrightarrow>
          long_context_rescale old scaling low high f = f) \<and>
       (2 * pi / f > real_of_int old / real_of_int low \<and>
        real_of_int old / real_of_int high \<le> real_of_int old / real_of_int low \<longrightarrow>
          long_context_rescale old scaling low high f = f / scaling) \<and>
       (\<not> 2 * pi / f < real_of_int old / real_of_int high \<and>
        \<not> 2 * pi / f > real_of_int old / real_of_int low \<longrightarrow>
          long_context_rescale old scaling low high f =
            (1 - (real_of_int old / (2 * pi / f) - real_of_int low) /
                 (real_of_int high - real_of_int low)) * f / scaling +
            (real_of_int old / (2 * pi / f) - real_of_int low) /
              (real_of_int high - real_of_int low) * f))"
proof
  have "map_err
          (\<lambda>freq.
             (let wavelen = 2 * pi / freq
              in if wavelen < real_of_int old / real_of_int high then Inr freq
                 else if wavelen > real_of_int old / real_of_int low then Inr (freq / scaling)
                 else if real_of_int old / real_of_int low = real_of_int old / real_of_int high
                 then Inl AssertionError
                 else
                   (let smooth = (real_of_int old / wavelen - real_of_int low) /
                                 (real_of_int high - real_of_int low)
                    in Inr ((1 - smooth) * freq / scaling + smooth * freq))))
          inv_freq =
        Inr (map (long_context_rescale old scaling low high) inv_freq)"
    using assms(3,4) by (intro map_err_total) (simp add: long_context_rescale_def Let_def)
  then show "compute_llama3_parameters inv_freq (Some old) scaling low high =
      Inr (map (long_context_rescale old scaling low high) inv_freq)"
    using assms(1,2) by (simp add: compute_llama3_parameters_def Let_def)
next
  show "\<forall>f\<in>set inv_freq.
       (2 * pi / f < real_of_int old / real_of_int high \<longrightarrow>
          long_context_rescale old scaling low high f = f) \<and>
       (2 * pi / f > real_of_int old / real_of_int low \<and>
        real_of_int old / real_of_int high \<le> real_of_int old / real_of_int low \<longrightarrow>
          long_context_rescale old scaling low high f = f / scaling) \<and>
       (\<not> 2 * pi / f < real_of_int old / real_of_int high \<and>
        \<not> 2 * pi / f > real_of_int old / real_of_int low \<longrightarrow>
          long_context_rescale old scaling low high f =
            (1 - (real_of_int old / (2 * pi / f) - real_of_int low) /
                 (real_of_int high - real_of_int low)) * f / scaling +
            (real_of_int old / (2 * pi / f) - real_of_int low) /
              (real_of_int high - real_of_int low) * f)"
    by (auto simp: long_context_rescale_def Let_def)
qed

theorem long_context_rescaling_piecewise_witness:
  "compute_llama3_parameters [1, 1 / 1000, 1 / 100000] (Some 8192) 8 1 4 =
     Inr [1, long_context_rescale 8192 8 1 4 (1 / 1000), 1 / 800000] \<and>
   2 * pi / (1 / 1000) \<ge> 8192 / 4 \<and> 2 * pi / (1 / 1000) \<le> 8192 / 1 \<and>
   long_context_rescale 8192 8 1 4 (1 / 1000) =
     (1 - (8192 / (2 * pi / (1 / 1000)) - 1) / (4 - 1)) * (1 / 1000) / 8 +
     (8192 / (2 * pi / (1 / 1000)) - 1) / (4 - 1) * (1 / 1000)"
proof -
  have p: "2 \<le> pi" "pi < 4"
    using pi_ge_two pi_less_4 by simp_all
  have a: "2 * pi / 1 < real_of_int 8192 / real_of_int 4"
    using p by simp
  have b: "\<not> 2 * pi / (1 / 1000) < real_of_int 8192 / real_of_int 4"
    "\<not> 2 * pi / (1 / 1000) > real_of_int 8192 / real_of_int 1"
    using p by simp_all
  have c: "2 * pi / (1 / 100000) > real_of_int 8192 / real_of_int 1"
    "real_of_int 8192 / real_of_int 4 \<le> real_of_int 8192 / real_of_int 1"
    using p by simp_all
  have h: "(1::int) \<noteq> 0" "(4::int) \<noteq> 0" "(1::int) \<noteq> 4" "(8192::int) \<noteq> 0"
    "0 \<notin> set [1, 1 / 1000, 1 / 100000 :: real]"
    by simp_all
  note t = long_context_rescaling_piecewise[OF h, of 8]
  from t have e: "compute_llama3_parameters [1, 1 / 1000, 1 / 100000] (Some 8192) 8 1 4 =
      Inr (map (long_context_rescale 8192 8 1 4) [1, 1 / 1000, 1 / 100000])"
    by (rule conjunct1)
  from t a have v1: "long_context_rescale 8192 8 1 4 1 = 1"
    by simp
  from t c have v3: "long_context_rescale 8192 8 1 4 (1 / 100000) = 1 / 100000 / 8"
    by simp
  from t b have v2: "long_context_rescale 8192 8 1 4 (1 / 1000) =
     (1 - (8192 / (2 * pi / (1 / 1000)) - 1) / (4 - 1)) * (1 / 1000) / 8 +
     (8192 / (2 * pi / (1 / 1000)) - 1) / (4 - 1) * (1 / 1000)"
    by simp
  from e v1 v3 have "compute_llama3_parameters [1, 1 / 1000, 1 / 100000] (Some 8192) 8 1 4 =
     Inr [1, long_context_rescale 8192 8 1 4 (1 / 1000), 1 / 800000]"
    by simp
  with b v2 show ?thesis by simp
qed


lemma map_err_Inl:
  assumes "x \<in> set xs" "f x = Inl e" "\<And>y e'. y \<in> set xs \<Longrightarrow> f y = Inl e' \<Longrightarrow> e' = e"
  shows "map_err f xs = Inl e"
  using assms
proof (induction xs)
  case Nil
  then show ?case by simp
next
  case (Cons y ys)
  show ?case
  proof (cases "f y")
    case (Inl e')
    have "y \<in> set (y # ys)" by simp
    from Cons.prems(3)[OF this Inl] have "e' = e" .
    then show ?thesis using Inl by (simp add: bind_err_simps)
  next
    case (Inr b)
    then have "x \<in> set ys" using Cons.prems(1,2) by auto
    then have "map_err f ys = Inl e"
    proof (rule Cons.IH)
      show "f x = Inl e" by (rule Cons.prems(2))
    next
      fix z e' assume "z \<in> set ys" "f z = Inl e'"
      then show "e' = e" using Cons.prems(3)[of z e'] by simp
    qed
    then show ?thesis using Inr by (simp add: bind_err_simps)
  qed
qed

lemma setup_layers:
  assumes "setup_sizes_ok (config self) num_pages page_size"
  shows "map_err
           (\<lambda>b. bind_err
                   (paged_zeros num_pages page_size (n_local_heads (config self))
                      (dim (config self) div n_head (config self)))
                   (\<lambda>kv. Inr (b\<lparr>paged_kv_cache := Some kv,
                                 attn_decode := Some Target_decode,
                                 attn_prefill := Some Target_prefill\<rparr>)))
           (layers self) =
         Inr (map (\<lambda>b. fresh_layer (config self) num_pages page_size) (layers self))"
  using assms
  by (intro map_err_total)
     (simp add: setup_sizes_ok_def paged_zeros_def zeros_def bind_err_simps fresh_layer_def)

lemma isl_bind_err_I: "(\<And>a. r = Inr a \<Longrightarrow> isl (f a)) \<Longrightarrow> isl (bind_err r f)"
  by (cases r) (simp_all add: bind_err_def)

lemma setup_fails_without_original:
  assumes "low_freq_factor (config self) \<noteq> None" "high_freq_factor (config self) \<noteq> None"
    and "original_max_position_embeddings (config self) = None"
  shows "isl (setup_caches self num_pages page_size)"
proof -
  obtain l h where lh: "low_freq_factor (config self) = Some l" "high_freq_factor (config self) = Some h"
    using assms(1,2) by auto
  have "isl (precompute_freqs_cis seq_len n_elem base scaling (Some l) (Some h) None)"
    for seq_len n_elem base scaling
    unfolding precompute_freqs_cis_def
    by (intro isl_bind_err_I) (simp add: compute_llama3_parameters_def)
  then have "isl (config_freqs_cis (config self))"
    using assms(3) lh by (simp add: config_freqs_cis_def)
  then have A: "isl (bind_err (config_freqs_cis (config self)) g)"
    for g :: "(real \<times> real) list list \<Rightarrow> py_error + Transformer"
    by (cases "config_freqs_cis (config self)") (simp_all add: bind_err_def)
  have "isl (bind_err r (\<lambda>layers'. bind_err (config_freqs_cis (config self)) (g layers')))"
    for r :: "py_error + Paged_Attention list"
      and g :: "Paged_Attention list \<Rightarrow> (real \<times> real) list list \<Rightarrow> py_error + Transformer"
    by (rule isl_bind_err_I) (rule A)
  then show ?thesis
    unfolding setup_caches_def Let_def by simp
qed

lemma base_freqs_ok:
  "0 \<le> n_elem \<Longrightarrow> base_freqs n_elem base = Inr (projr (base_freqs n_elem base))"
  by (simp add: base_freqs_def)

lemma setup_completes_uniform:
  assumes "low_freq_factor (config self) = None \<or> high_freq_factor (config self) = None"
    and "setup_sizes_ok (config self) num_pages page_size"
  shows "setup_caches self num_pages page_size =
         Inr (self\<lparr>layers := map (\<lambda>b. fresh_layer (config self) num_pages page_size) (layers self),
                   freqs_cis := Some (uniform_table (config self))\<rparr>)"
proof -
  have ok: "n_head (config self) \<noteq> 0" "0 \<le> dim (config self) div n_head (config self)"
    "0 \<le> block_size (config self)"
    using assms(2) by (simp_all add: setup_sizes_ok_def)
  have bf: "base_freqs (dim (config self) div n_head (config self)) (rope_base (config self)) =
            Inr (projr (base_freqs (dim (config self) div n_head (config self)) (rope_base (config self))))"
    by (rule base_freqs_ok[OF ok(2)])
  have nb: "\<not> block_size (config self) < 0"
    using ok(3) by simp
  have u: "precompute_freqs_cis (block_size (config self)) (dim (config self) div n_head (config self))
             (rope_base (config self)) (scaling_factor (config self)) lo hi om =
           Inr (uniform_table (config self))"
    if "lo = None \<or> hi = None" for lo hi om
  proof -
    have "(case (lo, hi) of
             (Some l, Some h) \<Rightarrow> compute_llama3_parameters fs om (scaling_factor (config self)) l h
           | _ \<Rightarrow> Inr (map (\<lambda>f. f / scaling_factor (config self)) fs)) =
          Inr (map (\<lambda>f. f / scaling_factor (config self)) fs)" for fs
      using that by (auto split: option.splits)
    then show ?thesis
      unfolding precompute_freqs_cis_def
      by (subst bf) (simp add: bind_err_simps uniform_table_def nb)
  qed
  have "config_freqs_cis (config self) = Inr (uniform_table (config self))"
    using assms(1) ok(1) u by (auto simp: config_freqs_cis_def)
  then show ?thesis
    using ok(1) by (simp add: setup_caches_def Let_def setup_layers[OF assms(2)] bind_err_simps)
qed


lemma ex_configs:
  "ex_tiny = ex_tiny_kwargs\<lparr>n_local_heads := 1, intermediate_size := Some 256, head_dim := 2\<rparr>"
  "ex_partial = ex_tiny\<lparr>low_freq_factor := Some 1\<rparr>"
  "ex_no_original = ex_tiny\<lparr>low_freq_factor := Some 1, high_freq_factor := Some 4\<rparr>"
  "ex_equal = ex_tiny\<lparr>low_freq_factor := Some 4, high_freq_factor := Some 4,
                         original_max_position_embeddings := Some 8192\<rparr>"
  by (simp_all add: ex_tiny_def ex_partial_def ex_no_original_def ex_equal_def ex_tiny_kwargs_def
      ModelArgs_defaults_def post_init_def Let_def int_of_quotient_def find_multiple_def)

lemma ex_tiny_fields:
  "n_head ex_tiny = 1" "dim ex_tiny = 2" "block_size ex_tiny = 4" "n_local_heads ex_tiny = 1"
  "rope_base ex_tiny = 10000" "scaling_factor ex_tiny = 1"
  "low_freq_factor ex_tiny = None" "high_freq_factor ex_tiny = None"
  "original_max_position_embeddings ex_tiny = None" "n_layer ex_tiny = 1"
  by (simp_all add: ex_configs(1) ex_tiny_kwargs_def ModelArgs_defaults_def)

lemma ex_base_freqs: "projr (base_freqs 2 10000) = [1]"
  by (simp add: base_freqs_def)


lemma ex_sizes_ok:
  "setup_sizes_ok ex_partial 1 1" "setup_sizes_ok ex_equal 1 1"
  by (simp_all add: setup_sizes_ok_def ex_configs(2,4) ex_tiny_fields)

lemma ex_equal_completes: "\<not> isl (setup_caches (Transformer_init ex_equal) 1 1)"
proof -
  have c: "config (Transformer_init ex_equal) = ex_equal"
    by (simp add: Transformer_init_def)
  have w: "2 * pi / 1 < real_of_int 8192 / real_of_int 4"
    using pi_less_4 by simp
  have l: "compute_llama3_parameters [1] (Some 8192) 1 4 4 = Inr [1]"
    using w by (simp add: compute_llama3_parameters_def Let_def bind_err_simps)
  have f: "config_freqs_cis ex_equal =
           Inr (map (\<lambda>t. map (\<lambda>f. (cos (real t * f), sin (real t * f))) [1]) [0..<nat 4])"
    by (simp add: config_freqs_cis_def precompute_freqs_cis_def ex_configs(4) ex_tiny_fields
        base_freqs_def l bind_err_simps)
  have ok: "setup_sizes_ok (config (Transformer_init ex_equal)) 1 1"
    by (simp add: c ex_sizes_ok)
  have "n_head ex_equal \<noteq> 0"
    by (simp add: ex_configs(4) ex_tiny_fields)
  then have "n_head (config (Transformer_init ex_equal)) \<noteq> 0"
    by (simp add: c)
  then show ?thesis
    by (simp add: setup_caches_def Let_def setup_layers[OF ok, unfolded c] bind_err_simps c f)
qed

text \<open>
  C6, as amended. Cache setup fails when both frequency factors are present and
  \<open>original_max_position_embeddings\<close> is absent. When \<open>low_freq_factor\<close> or
  \<open>high_freq_factor\<close> is absent, whatever the other long-context fields hold, setup does
  not fail on that account: it ignores them and builds the uniformly scaled table. Equal
  factors are not rejected as such: the configuration \<open>ex_equal\<close>, with both factors 4, the
  original length 8192 and the single base frequency 1 (wavelength \<open>2 pi\<close>, far below
  the boundary 2048), completes setup.
\<close>

theorem setup_configuration_errors:
  "(low_freq_factor (config self) \<noteq> None \<and> high_freq_factor (config self) \<noteq> None \<and>
    original_max_position_embeddings (config self) = None \<longrightarrow>
      isl (setup_caches self num_pages page_size)) \<and>
   ((low_freq_factor (config self) = None \<or> high_freq_factor (config self) = None) \<and>
    setup_sizes_ok (config self) num_pages page_size \<longrightarrow>
      setup_caches self num_pages page_size =
        Inr (self\<lparr>layers := map (\<lambda>b. fresh_layer (config self) num_pages page_size) (layers self),
                  freqs_cis := Some (uniform_table (config self))\<rparr>)) \<and>
   low_freq_factor ex_equal = high_freq_factor ex_equal \<and>
   \<not> isl (setup_caches (Transformer_init ex_equal) 1 1)"
proof -
  have "low_freq_factor ex_equal = high_freq_factor ex_equal"
    by (simp add: ex_configs(4))
  then show ?thesis
    using setup_fails_without_original[of self num_pages page_size]
      setup_completes_uniform[of self num_pages page_size]
      ex_equal_completes
    by blast
qed

theorem setup_configuration_counterexample:
  "low_freq_factor ex_partial = Some 1 \<and> high_freq_factor ex_partial = None \<and>
   original_max_position_embeddings ex_partial = None \<and>
   \<not> isl (setup_caches (Transformer_init ex_partial) 1 1) \<and>
   low_freq_factor ex_equal = Some 4 \<and> high_freq_factor ex_equal = Some 4 \<and>
   original_max_position_embeddings ex_equal = Some 8192 \<and>
   \<not> isl (setup_caches (Transformer_init ex_equal) 1 1)"
proof -
  have c: "config (Transformer_init cfg) = cfg" for cfg
    by (simp add: Transformer_init_def)
  have p: "low_freq_factor ex_partial = Some 1" "high_freq_factor ex_partial = None"
    "original_max_position_embeddings ex_partial = None"
    by (simp_all add: ex_configs(2) ex_tiny_fields)
  have e: "low_freq_factor ex_equal = Some 4" "high_freq_factor ex_equal = Some 4"
    "original_max_position_embeddings ex_equal = Some 8192"
    by (simp_all add: ex_configs(4))
  have "setup_caches (Transformer_init ex_partial) 1 1 =
        Inr ((Transformer_init ex_partial)
               \<lparr>layers := map (\<lambda>b. fresh_layer (config (Transformer_init ex_partial)) 1 1)
                            (layers (Transformer_init ex_partial)),
                freqs_cis := Some (uniform_table (config (Transformer_init ex_partial)))\<rparr>)"
    by (rule setup_completes_uniform) (simp_all add: c p ex_sizes_ok)
  then have a: "\<not> isl (setup_caches (Transformer_init ex_partial) 1 1)"
    by simp
  from p e a ex_equal_completes show ?thesis by blast
qed

theorem setup_configuration_errors_witness:
  "low_freq_factor ex_no_original = Some 1 \<and> high_freq_factor ex_no_original = Some 4 \<and>
   original_max_position_embeddings ex_no_original = None \<and>
   isl (setup_caches (Transformer_init ex_no_original) 1 1) \<and>
   high_freq_factor ex_partial = None \<and> setup_sizes_ok ex_partial 1 1 \<and>
   setup_caches (Transformer_init ex_partial) 1 1 =
     Inr ((Transformer_init ex_partial)
            \<lparr>layers := map (\<lambda>b. fresh_layer ex_partial 1 1) (layers (Transformer_init ex_partial)),
             freqs_cis := Some (uniform_table ex_partial)\<rparr>)"
proof -
  have c: "config (Transformer_init cfg) = cfg" for cfg
    by (simp add: Transformer_init_def)
  have n: "low_freq_factor ex_no_original = Some 1" "high_freq_factor ex_no_original = Some 4"
    "original_max_position_embeddings ex_no_original = None"
    by (simp_all add: ex_configs(3) ex_tiny_fields)
  have p: "high_freq_factor ex_partial = None"
    by (simp add: ex_configs(2) ex_tiny_fields)
  from setup_configuration_errors[of "Transformer_init ex_no_original" 1 1, unfolded c] n
  have 1: "isl (setup_caches (Transformer_init ex_no_original) 1 1)"
    by simp
  from setup_configuration_errors[of "Transformer_init ex_partial" 1 1, unfolded c] p ex_sizes_ok(1)
  have 2: "setup_caches (Transformer_init ex_partial) 1 1 =
     Inr ((Transformer_init ex_partial)
            \<lparr>layers := map (\<lambda>b. fresh_layer ex_partial 1 1) (layers (Transformer_init ex_partial)),
             freqs_cis := Some (uniform_table ex_partial)\<rparr>)"
    by blast
  from n p ex_sizes_ok(1) 1 2 show ?thesis by blast
qed


lemma setup_caches_Inr:
  assumes "setup_caches self num_pages page_size = Inr self'"
  shows "\<exists>table. config_freqs_cis (config self) = Inr table \<and>
           self' = self\<lparr>layers := map (\<lambda>b. fresh_layer (config self) num_pages page_size) (layers self),
                        freqs_cis := Some table\<rparr>"
proof -
  define f where "f = (\<lambda>b :: Paged_Attention. bind_err
                   (paged_zeros num_pages page_size (n_local_heads (config self))
                      (dim (config self) div n_head (config self)))
                   (\<lambda>kv. Inr (b\<lparr>paged_kv_cache := Some kv,
                                 attn_decode := Some Target_decode,
                                 attn_prefill := Some Target_prefill\<rparr>)))"
  from assms obtain layers' table where
    m: "map_err f (layers self) = Inr layers'" and
    t: "config_freqs_cis (config self) = Inr table" and
    s: "self' = self\<lparr>layers := layers', freqs_cis := Some table\<rparr>"
    by (auto simp: setup_caches_def Let_def bind_err_Inr_iff f_def split: if_splits)
  have fr: "y = fresh_layer (config self) num_pages page_size" if "f x = Inr y" for x y
    using that by (auto simp: f_def bind_err_Inr_iff fresh_layer_def)
  from map_err_Inr_D[OF m] have la: "list_all2 (\<lambda>x y. f x = Inr y) (layers self) layers'" .
  have "layers' = map (\<lambda>b. fresh_layer (config self) num_pages page_size) (layers self)"
  proof (rule nth_equalityI)
    show "length layers' = length (map (\<lambda>b. fresh_layer (config self) num_pages page_size) (layers self))"
      using la by (simp add: list_all2_lengthD)
  next
    fix i assume "i < length layers'"
    then have "f (layers self ! i) = Inr (layers' ! i)" "i < length (layers self)"
      using la by (simp_all add: list_all2_conv_all_nth)
    then show "layers' ! i = map (\<lambda>b. fresh_layer (config self) num_pages page_size) (layers self) ! i"
      using fr by simp
  qed
  with t s show ?thesis by blast
qed

lemma draft_setup_guard:
  "seq_length \<le> max_seq_length d \<and> batch \<le> max_batch_size d \<Longrightarrow>
   draft_setup_caches d batch seq_length budget buffer = Inr d"
  by (simp add: draft_setup_caches_def)

lemma resetup_target:
  assumes "setup_caches self p s = Inr self'" "setup_caches self' p' s' = Inr self''"
  shows "freqs_cis self'' = freqs_cis self' \<and> config self'' = config self' \<and>
         layers self'' = map (\<lambda>b. fresh_layer (config self') p' s') (layers self')"
proof -
  from setup_caches_Inr[OF assms(1)] obtain table where
    1: "config_freqs_cis (config self) = Inr table"
       "self' = self\<lparr>layers := map (\<lambda>b. fresh_layer (config self) p s) (layers self),
                        freqs_cis := Some table\<rparr>"
    by blast
  from setup_caches_Inr[OF assms(2)] obtain table' where
    2: "config_freqs_cis (config self') = Inr table'"
       "self'' = self'\<lparr>layers := map (\<lambda>b. fresh_layer (config self') p' s') (layers self'),
                        freqs_cis := Some table'\<rparr>"
    by blast
  have "config self' = config self" using 1(2) by simp
  then have "table' = table" using 1(1) 2(1) by simp
  then show ?thesis using 1(2) 2(2) by simp
qed


lemma ex_fresh_layer:
  "fresh_layer ex_tiny 2 1 =
     \<lparr>paged_kv_cache = Some (replicate 2 [[[[0, 0]]], [[[0, 0]]]]),
      attn_decode = Some Target_decode, attn_prefill = Some Target_prefill\<rparr>"
  "fresh_layer ex_tiny 1 1 =
     \<lparr>paged_kv_cache = Some (replicate 1 [[[[0, 0]]], [[[0, 0]]]]),
      attn_decode = Some Target_decode, attn_prefill = Some Target_prefill\<rparr>"
  by (simp_all add: fresh_layer_def paged_zeros_def zeros_def bind_err_simps ex_tiny_fields
      numeral_2_eq_2)

lemma ex_target_eq:
  "ex_target = \<lparr>config = ex_tiny, layers = [fresh_layer ex_tiny 2 1],
                freqs_cis = Some (uniform_table ex_tiny)\<rparr>"
proof -
  have c: "config (Transformer_init ex_tiny) = ex_tiny"
    by (simp add: Transformer_init_def)
  have "setup_caches (Transformer_init ex_tiny) 2 1 =
        Inr ((Transformer_init ex_tiny)
               \<lparr>layers := map (\<lambda>b. fresh_layer (config (Transformer_init ex_tiny)) 2 1)
                            (layers (Transformer_init ex_tiny)),
                freqs_cis := Some (uniform_table (config (Transformer_init ex_tiny)))\<rparr>)"
    by (rule setup_completes_uniform) (simp_all add: c ex_tiny_fields setup_sizes_ok_def)
  then show ?thesis
    by (simp add: ex_target_def Transformer_init_def ex_tiny_fields)
qed

lemma ex_resetup:
  "setup_caches ex_target 1 1 =
     Inr \<lparr>config = ex_tiny, layers = [fresh_layer ex_tiny 1 1],
          freqs_cis = Some (uniform_table ex_tiny)\<rparr>"
  "setup_caches ex_target_written 2 1 =
     Inr \<lparr>config = ex_tiny, layers = [fresh_layer ex_tiny 2 1],
          freqs_cis = Some (uniform_table ex_tiny)\<rparr>"
proof -
  have "setup_caches ex_target 1 1 =
        Inr (ex_target\<lparr>layers := map (\<lambda>b. fresh_layer (config ex_target) 1 1) (layers ex_target),
                       freqs_cis := Some (uniform_table (config ex_target))\<rparr>)"
    by (rule setup_completes_uniform)
       (simp_all add: ex_target_eq ex_tiny_fields setup_sizes_ok_def)
  then show "setup_caches ex_target 1 1 =
     Inr \<lparr>config = ex_tiny, layers = [fresh_layer ex_tiny 1 1],
          freqs_cis = Some (uniform_table ex_tiny)\<rparr>"
    by (simp add: ex_target_eq)
  have "setup_caches ex_target_written 2 1 =
        Inr (ex_target_written\<lparr>layers := map (\<lambda>b. fresh_layer (config ex_target_written) 2 1)
                                           (layers ex_target_written),
                       freqs_cis := Some (uniform_table (config ex_target_written))\<rparr>)"
    by (rule setup_completes_uniform)
       (simp_all add: ex_target_written_def ex_target_eq ex_tiny_fields setup_sizes_ok_def)
  then show "setup_caches ex_target_written 2 1 =
     Inr \<lparr>config = ex_tiny, layers = [fresh_layer ex_tiny 2 1],
          freqs_cis = Some (uniform_table ex_tiny)\<rparr>"
    by (simp add: ex_target_written_def ex_target_eq)
qed

text \<open>
  C9, as amended. The draft variant is a no-op when the stored \<open>max_seq_length\<close> and
  \<open>max_batch_size\<close> both cover the request: the model, with every cache buffer and both
  frequency tables, is returned unchanged (\<open>streaming_budget\<close> and \<open>buffer\<close> are not
  compared). The target variant has no such test: a repeated call that completes leaves
  the configuration and the frequency table as they were, and replaces every layer's
  cache by a fresh zero buffer of the requested size, whatever it held.
\<close>

theorem setup_caches_recheck:
  "(seq_length \<le> max_seq_length d \<and> batch \<le> max_batch_size d \<longrightarrow>
      draft_setup_caches d batch seq_length budget buffer = Inr d) \<and>
   (setup_caches self p s = Inr self' \<and> setup_caches self' p' s' = Inr self'' \<longrightarrow>
      freqs_cis self'' = freqs_cis self' \<and> config self'' = config self' \<and>
      layers self'' = map (\<lambda>b. fresh_layer (config self') p' s') (layers self'))"
  using draft_setup_guard[of seq_length d batch budget buffer]
    resetup_target[of self p s self' p' s' self'']
  by blast

theorem setup_caches_recheck_counterexample:
  "map paged_kv_cache (layers ex_target) = [Some (replicate 2 [[[[0, 0]]], [[[0, 0]]]])] \<and>
   map paged_kv_cache (layers (projr (setup_caches ex_target 1 1))) =
     [Some (replicate 1 [[[[0, 0]]], [[[0, 0]]]])] \<and>
   layers (projr (setup_caches ex_target 1 1)) \<noteq> layers ex_target \<and>
   map paged_kv_cache (layers ex_target_written) = [Some (replicate 2 [[[[7, 7]]], [[[7, 7]]]])] \<and>
   map paged_kv_cache (layers (projr (setup_caches ex_target_written 2 1))) =
     [Some (replicate 2 [[[[0, 0]]], [[[0, 0]]]])] \<and>
   layers (projr (setup_caches ex_target_written 2 1)) \<noteq> layers ex_target_written"
proof -
  have l1: "layers ex_target = [fresh_layer ex_tiny 2 1]"
    by (simp add: ex_target_eq)
  have l2: "layers (projr (setup_caches ex_target 1 1)) = [fresh_layer ex_tiny 1 1]"
    by (simp add: ex_resetup(1))
  have l3: "layers ex_target_written =
      [(fresh_layer ex_tiny 2 1)\<lparr>paged_kv_cache := Some (replicate 2 [[[[7, 7]]], [[[7, 7]]]])\<rparr>]"
    by (simp add: ex_target_written_def l1)
  have l4: "layers (projr (setup_caches ex_target_written 2 1)) = [fresh_layer ex_tiny 2 1]"
    by (simp add: ex_resetup(2))
  show ?thesis
    unfolding l1 l2 l3 l4 by (simp add: ex_fresh_layer numeral_2_eq_2)
qed

lemma ex_draft_fields:
  "max_batch_size ex_draft = 1" "max_seq_length ex_draft = 4"
  by (simp_all add: ex_draft_def draft_setup_caches_def Draft_Transformer_init_def ex_tiny_fields
      Let_def KVCache_init_def zeros_def bind_err_simps config_freqs_cis_def
      precompute_freqs_cis_def base_freqs_def streaming_index_def)


theorem setup_caches_recheck_witness:
  "3 \<le> max_seq_length ex_draft \<and> 1 \<le> max_batch_size ex_draft \<and>
   draft_setup_caches ex_draft 1 3 256 0 = Inr ex_draft \<and>
   setup_caches (Transformer_init ex_tiny) 2 1 = Inr ex_target \<and>
   setup_caches ex_target 1 1 =
     Inr \<lparr>config = ex_tiny, layers = [fresh_layer ex_tiny 1 1],
          freqs_cis = Some (uniform_table ex_tiny)\<rparr> \<and>
   freqs_cis \<lparr>config = ex_tiny, layers = [fresh_layer ex_tiny 1 1],
          freqs_cis = Some (uniform_table ex_tiny)\<rparr> = freqs_cis ex_target"
proof -
  have g: "3 \<le> max_seq_length ex_draft" "1 \<le> max_batch_size ex_draft"
    by (simp_all add: ex_draft_fields)
  have c: "config (Transformer_init ex_tiny) = ex_tiny"
    by (simp add: Transformer_init_def)
  have "setup_caches (Transformer_init ex_tiny) 2 1 =
        Inr ((Transformer_init ex_tiny)
               \<lparr>layers := map (\<lambda>b. fresh_layer (config (Transformer_init ex_tiny)) 2 1)
                            (layers (Transformer_init ex_tiny)),
                freqs_cis := Some (uniform_table (config (Transformer_init ex_tiny)))\<rparr>)"
    by (rule setup_completes_uniform) (simp_all add: c ex_tiny_fields setup_sizes_ok_def)
  then have s1: "setup_caches (Transformer_init ex_tiny) 2 1 = Inr ex_target"
    by (simp add: ex_target_def)
  note t = setup_caches_recheck[of 3 ex_draft 1 256 0 "Transformer_init ex_tiny" 2 1 ex_target 1 1
      "\<lparr>config = ex_tiny, layers = [fresh_layer ex_tiny 1 1],
          freqs_cis = Some (uniform_table ex_tiny)\<rparr>"]
  from t g have 1: "draft_setup_caches ex_draft 1 3 256 0 = Inr ex_draft"
    by blast
  from t s1 ex_resetup(1) have 2: "freqs_cis \<lparr>config = ex_tiny, layers = [fresh_layer ex_tiny 1 1],
          freqs_cis = Some (uniform_table ex_tiny)\<rparr> = freqs_cis ex_target"
    by blast
  from g 1 s1 ex_resetup(1) 2 show ?thesis by blast
qed



subsection \<open>The draft attention\<close>

lemma setitem_row_length:
  "setitem_row row a b src = Inr row' \<Longrightarrow> length row' = length row"
proof -
  assume h: "setitem_row row a b src = Inr row'"
  define n where "n = length row"
  define s where "s = slice_start n a"
  define e where "e = slice_stop n b"
  from h obtain new where nw: "broadcast (e - s) src = Inr new"
    and r: "row' = take s row @ new @ drop (s + (e - s)) row"
    by (auto simp: setitem_row_def Let_def bind_err_Inr_iff n_def s_def e_def)
  have "e \<le> n" by (simp add: e_def slice_stop_le)
  moreover have "length new = e - s" using nw by (rule broadcast_length)
  ultimately show ?thesis using r by (auto simp: n_def min_def)
qed

lemma setitem_cols_rect:
  assumes "setitem_cols t a b src = Inr t'" "rect B n t"
  shows "rect B n t'"
proof -
  from assms(1) obtain rows where "broadcast (length t) src = Inr rows"
    and m: "map_err (\<lambda>(row, src_row). setitem_row row a b src_row) (zip t rows) = Inr t'"
    by (auto simp: setitem_cols_def bind_err_Inr_iff)
  then have lr: "length rows = length t" by (simp add: broadcast_length)
  from map_err_Inr_D[OF m]
  have la: "list_all2 (\<lambda>x y. (case x of (row, src_row) \<Rightarrow> setitem_row row a b src_row) = Inr y) (zip t rows) t'" .
  then have lt: "length t' = length t" using lr by (auto dest: list_all2_lengthD)
  have "length r = n" if "r \<in> set t'" for r
  proof -
    from that obtain i where i: "i < length t'" "t' ! i = r"
      by (auto simp: in_set_conv_nth)
    then have "setitem_row (t ! i) a b (rows ! i) = Inr r"
      using la lr lt by (auto simp: list_all2_conv_all_nth)
    then have "length r = length (t ! i)" by (rule setitem_row_length)
    then show ?thesis using assms(2) i lt by (simp add: rect_def)
  qed
  then show ?thesis using lt assms(2) by (simp add: rect_def)
qed

lemma prefill_returns:
  assumes "prefill cache cache_seqlens k v = Inr (cache', k_ret, v_ret)"
    and "rect B n (draft_k_cache cache)"
  shows "\<exists>X. k_ret = getitem_cols (draft_k_cache cache') None (Some X) \<and>
             v_ret = getitem_cols (draft_v_cache cache') None (Some X)"
    and "rect B n (draft_k_cache cache')"
proof -
  obtain c rest where cl: "cache_seqlens = c # rest"
    using assms(1) by (cases cache_seqlens) (simp_all add: prefill_def)
  show "\<exists>X. k_ret = getitem_cols (draft_k_cache cache') None (Some X) \<and>
             v_ret = getitem_cols (draft_v_cache cache') None (Some X)"
    using assms(1) unfolding cl
    by (auto simp: prefill_def Let_def bind_err_Inr_iff split: if_splits)
  show "rect B n (draft_k_cache cache')"
    using assms unfolding cl
    by (auto simp: prefill_def Let_def bind_err_Inr_iff split: if_splits
        dest: setitem_cols_rect)
qed


lemma py_slice_prefix: "py_slice row None (Some (int L)) = take L row"
  by (simp add: py_slice_def Let_def slice_start_def slice_stop_def slice_bound_def min_def)

lemma getitem_cols_take: "getitem_cols t None (Some (int L)) = map (take L) t"
  by (simp add: getitem_cols_def py_slice_prefix)

lemma setitem_cols_None: "setitem_cols t None b src = setitem_cols t (Some 0) b src"
  by (simp add: setitem_cols_def setitem_row_def slice_start_def slice_bound_def)

lemma rotary_shapes_lengths:
  assumes "rotary_shapes_ok x freqs"
  shows "length freqs = length x"
    and "b < length x \<Longrightarrow> length (freqs ! b) = length (x ! b)"
  using assms
  by (auto simp: rotary_shapes_ok_def list_all2_conv_all_nth)

lemma rotate_blocks_nth:
  assumes "rotary_shapes_ok x freqs" "b < length x" "p < length (x ! b)"
  shows "rotate_blocks freqs x ! b ! p = map (rotate_head (freqs ! b ! p)) (x ! b ! p)"
  using assms rotary_shapes_lengths[OF assms(1)]
  by (simp add: rotate_blocks_def)

lemma rotate_blocks_rect:
  assumes "rotary_shapes_ok x freqs" "rect B L x"
  shows "rect B L (rotate_blocks freqs x)"
proof -
  have lf: "length freqs = length x"
    using assms(1) by (rule rotary_shapes_lengths)
  have "length r = L" if "r \<in> set (rotate_blocks freqs x)" for r
  proof -
    from that obtain i where i: "i < length (rotate_blocks freqs x)" "rotate_blocks freqs x ! i = r"
      by (auto simp: in_set_conv_nth)
    then have il: "i < length x" by (simp add: rotate_blocks_def lf)
    then have "length (freqs ! i) = length (x ! i)"
      using rotary_shapes_lengths(2)[OF assms(1)] by simp
    moreover have "length (x ! i) = L" using assms(2) il by (simp add: rect_def)
    ultimately show ?thesis using i il lf by (auto simp: rotate_blocks_def)
  qed
  then show ?thesis using assms(2) lf by (simp add: rect_def rotate_blocks_def)
qed


lemma snapshot_write:
  assumes "rect B n rows" "rect B L k_rot" "L \<le> n" "0 < B"
  shows "setitem_cols rows None (Some (int (shape1 k_rot))) k_rot =
         Inr (map2 (write_at 0) rows k_rot)"
proof -
  have s: "shape1 k_rot = L"
    using assms(2,4) by (rule shape1_rect)
  have r: "rect B (nat (int L - 0)) k_rot"
    using assms(2) by simp
  have w: "take (nat 0) row @ new @ drop (nat (int L)) row = write_at 0 row new"
    if "length row = n" "length new = L" for row new :: "'a list"
    using that by (simp add: write_at_def)
  have "setitem_cols rows (Some 0) (Some (int L)) k_rot =
        Inr (map2 (\<lambda>row new. take (nat 0) row @ new @ drop (nat (int L)) row) rows k_rot)"
    by (rule setitem_cols_exact[OF assms(1) r]) (use assms(3) in simp_all)
  also have "map2 (\<lambda>row new. take (nat 0) row @ new @ drop (nat (int L)) row) rows k_rot =
             map2 (write_at 0) rows k_rot"
    by (rule map2_rect_cong[OF assms(1,2)]) (rule w)
  finally show ?thesis
    by (simp add: s setitem_cols_None)
qed

lemma prefill_ret_rect:
  assumes "prefill cache cache_seqlens k v = Inr (cache', k_ret, v_ret)"
    and "rect B n (draft_k_cache cache)"
  shows "\<exists>L. L \<le> n \<and> rect B L k_ret"
proof -
  from prefill_returns[OF assms] obtain X where
    k: "k_ret = getitem_cols (draft_k_cache cache') None (Some X)"
    and r: "rect B n (draft_k_cache cache')"
    by blast
  have "py_slice row None (Some X) = take (slice_bound n X) row" if "length row = n"
    for row :: "'a list"
    using that by (simp add: py_slice_def Let_def slice_start_def slice_stop_def)
  moreover have "slice_bound n X \<le> n"
    by (auto simp: slice_bound_def)
  ultimately have "rect B (slice_bound n X) k_ret"
    using r by (auto simp: k getitem_cols_def rect_def)
  then show ?thesis
    using \<open>slice_bound n X \<le> n\<close> by blast
qed


text \<open>
  C8. In \<open>draft_prefill\<close>, with a cache of \<open>B\<close> rows: when the append returns keys of
  length \<open>L\<close>, the query rotates and the frequency rows \<open>streaming_freqs[:, :L]\<close> fit the
  returned keys, the call completes. The keys given to the kernel are the returned keys
  rotated position by position with the rows \<open>0, ..., L - 1\<close> of \<open>streaming_freqs\<close> (for the
  tensor \<open>setup_caches\<close> builds: the rows \<open>0, ..., L - 1\<close> of the table), whatever the
  frequencies \<open>freqs_cis\<close> of the input positions are, which rotate the queries only. The
  cache is left as the append left it, except that exactly when \<open>is_last\<close> holds the
  positions \<open>[0, L)\<close> of the draft key cache are overwritten with the rotated keys; the
  draft value cache is that of the append in both cases.
\<close>

theorem draft_prefill_local_rotation:
  fixes wqkv :: "'x \<Rightarrow> real list list list list \<times> real list list list list \<times> real list list list list"
    and kernel :: "real list list list list \<Rightarrow> real list list list list \<Rightarrow> real list list list list \<Rightarrow> 'y"
  assumes cache: "kv_cache self = Some cache" and qkv: "wqkv x = (q, k, v)"
    and rows: "rect B n (draft_k_cache cache)" and B: "0 < B"
    and app: "prefill cache cache_seqlens k v = Inr (cache', k_ret, v_ret)"
    and qrot: "apply_rotary_emb q freqs_cis_arg = Inr q_rot"
    and fit: "rotary_shapes_ok k_ret (getitem_cols streaming None (Some (int (shape1 k_ret))))"
  shows
   "draft_prefill wqkv kernel wo all_reduce self x freqs_cis_arg streaming cache_seqlens is_last =
      Inr (self\<lparr>kv_cache := Some
                  (if is_last
                   then cache'\<lparr>draft_k_cache :=
                          map2 (write_at 0) (draft_k_cache cache')
                            (rotate_blocks (map (take (shape1 k_ret)) streaming) k_ret)\<rparr>
                   else cache')\<rparr>,
           (case all_reduce of None \<Rightarrow> id | Some reduce \<Rightarrow> reduce)
             (wo (kernel q_rot
                    (rotate_blocks (map (take (shape1 k_ret)) streaming) k_ret) v_ret))) \<and>
    (\<forall>b<B. \<forall>p<shape1 k_ret.
       rotate_blocks (map (take (shape1 k_ret)) streaming) k_ret ! b ! p =
         map (rotate_head (streaming ! b ! p)) (k_ret ! b ! p) \<and>
       write_at 0 (draft_k_cache cache' ! b)
         (rotate_blocks (map (take (shape1 k_ret)) streaming) k_ret ! b) ! p =
         map (rotate_head (streaming ! b ! p)) (k_ret ! b ! p)) \<and>
    (\<forall>table budget batch.
       streaming_index table budget batch = Inr streaming \<longrightarrow>
       (\<forall>b<B. \<forall>p<shape1 k_ret.
          rotate_blocks (map (take (shape1 k_ret)) streaming) k_ret ! b ! p =
            map (rotate_head (table ! p)) (k_ret ! b ! p)))"
proof -
  define L where "L = shape1 k_ret"
  define k_rot where "k_rot = rotate_blocks (map (take L) streaming) k_ret"
  from prefill_ret_rect[OF app rows] obtain L' where L': "L' \<le> n" "rect B L' k_ret"
    by blast
  have LL: "L' = L"
    using shape1_rect[OF L'(2) B] by (simp add: L_def)
  have Ln: "L \<le> n" and kr: "rect B L k_ret"
    using L' LL by simp_all
  have rows': "rect B n (draft_k_cache cache')"
    by (rule prefill_returns(2)[OF app rows])
  have fit': "rotary_shapes_ok k_ret (map (take L) streaming)"
    using fit by (simp add: getitem_cols_take L_def)
  have rr: "rect B L k_rot"
    unfolding k_rot_def by (rule rotate_blocks_rect[OF fit' kr])
  have lk: "length k_ret = B" "\<And>b. b < B \<Longrightarrow> length (k_ret ! b) = L"
    using kr by (simp_all add: rect_def)
  have ar: "apply_rotary_emb k_ret (getitem_cols streaming None (Some (int (shape1 k_ret)))) = Inr k_rot"
    using fit' by (simp add: apply_rotary_emb_def getitem_cols_take L_def k_rot_def)
  have sw: "setitem_cols (draft_k_cache cache') None (Some (int (shape1 k_rot))) k_rot =
            Inr (map2 (write_at 0) (draft_k_cache cache') k_rot)"
    by (rule snapshot_write[OF rows' rr Ln B])
  have main: "draft_prefill wqkv kernel wo all_reduce self x freqs_cis_arg streaming cache_seqlens is_last =
      Inr (self\<lparr>kv_cache := Some
                  (if is_last
                   then cache'\<lparr>draft_k_cache := map2 (write_at 0) (draft_k_cache cache') k_rot\<rparr>
                   else cache')\<rparr>,
           (case all_reduce of None \<Rightarrow> id | Some reduce \<Rightarrow> reduce)
             (wo (kernel q_rot k_rot v_ret)))"
    by (simp add: draft_prefill_def qkv cache app qrot ar sw bind_err_simps Let_def
        split: option.splits)
  have sl: "length (map (take L) streaming) = B" "\<And>b. b < B \<Longrightarrow> length (take L (streaming ! b)) = L"
    using rotary_shapes_lengths[OF fit'] lk by (auto simp: )
  have nth: "k_rot ! b ! p = map (rotate_head (streaming ! b ! p)) (k_ret ! b ! p)"
    if "b < B" "p < L" for b p
  proof -
    have "k_rot ! b ! p = map (rotate_head (map (take L) streaming ! b ! p)) (k_ret ! b ! p)"
      unfolding k_rot_def using that lk by (intro rotate_blocks_nth[OF fit']) simp_all
    moreover have "map (take L) streaming ! b ! p = streaming ! b ! p"
      using that sl(1) by simp
    ultimately show ?thesis by simp
  qed
  have wr: "write_at 0 (draft_k_cache cache' ! b) (k_rot ! b) ! p = k_rot ! b ! p"
    if "b < B" "p < L" for b p
  proof -
    have "length (k_rot ! b) = L" using rr that(1) by (simp add: rect_def)
    then show ?thesis using that(2) by (simp add: write_at_def nth_append)
  qed
  have st: "k_rot ! b ! p = map (rotate_head (table ! p)) (k_ret ! b ! p)"
    if si: "streaming_index table budget batch = Inr streaming" and bp: "b < B" "p < L"
    for table budget batch b p
  proof -
    from si have s: "streaming = replicate (nat batch) (map (\<lambda>p. table ! p) [0..<nat budget])"
      by (auto simp: streaming_index_def split: if_splits)
    have "nat batch = B" using sl(1) s by simp
    moreover have "L \<le> nat budget"
      using sl(2)[OF bp(1)] s \<open>nat batch = B\<close> bp(1) by (simp add: min_def split: if_splits)
    ultimately have "streaming ! b ! p = table ! p"
      using s bp by simp
    then show ?thesis using nth[OF bp] by simp
  qed
  have wr': "write_at 0 (draft_k_cache cache' ! b) (k_rot ! b) ! p =
             map (rotate_head (streaming ! b ! p)) (k_ret ! b ! p)"
    if "b < B" "p < L" for b p
    using wr[OF that] nth[OF that] by simp
  have c2: "\<forall>b<B. \<forall>p<L.
       k_rot ! b ! p = map (rotate_head (streaming ! b ! p)) (k_ret ! b ! p) \<and>
       write_at 0 (draft_k_cache cache' ! b) (k_rot ! b) ! p =
         map (rotate_head (streaming ! b ! p)) (k_ret ! b ! p)"
    using nth wr' by simp
  have c3: "\<forall>table budget batch.
       streaming_index table budget batch = Inr streaming \<longrightarrow>
       (\<forall>b<B. \<forall>p<L. k_rot ! b ! p = map (rotate_head (table ! p)) (k_ret ! b ! p))"
    using st by simp
  from main c2 c3 show ?thesis
    unfolding k_rot_def L_def by (intro conjI)
qed


theorem draft_prefill_local_rotation_witness:
  "rect 1 20 (draft_k_cache ex_attn_cache) \<and>
   prefill ex_attn_cache [0] ex_keys ex_values =
     Inr (fst (projr (prefill ex_attn_cache [0] ex_keys ex_values)), ex_keys, ex_values) \<and>
   apply_rotary_emb ex_queries [[ex_table ! 2, ex_table ! 3]] = Inr [[[[- 1, 0]], [[0, - 1]]]] \<and>
   rotate_blocks (map (take (shape1 ex_keys)) ex_streaming) ex_keys = [[[[1, 0]], [[0, 1]]]] \<and>
   draft_prefill (\<lambda>u :: unit. (ex_queries, ex_keys, ex_values)) (\<lambda>q k v. (q, k, v)) id None
       ex_attn () [[ex_table ! 2, ex_table ! 3]] ex_streaming [0] True =
     Inr (ex_attn\<lparr>kv_cache := Some
            ((fst (projr (prefill ex_attn_cache [0] ex_keys ex_values)))
               \<lparr>draft_k_cache :=
                  map2 (write_at 0)
                    (draft_k_cache (fst (projr (prefill ex_attn_cache [0] ex_keys ex_values))))
                    (rotate_blocks (map (take (shape1 ex_keys)) ex_streaming) ex_keys)\<rparr>)\<rparr>,
          ([[[[- 1, 0]], [[0, - 1]]]],
           rotate_blocks (map (take (shape1 ex_keys)) ex_streaming) ex_keys, ex_values)) \<and>
   draft_prefill (\<lambda>u :: unit. (ex_queries, ex_keys, ex_values)) (\<lambda>q k v. (q, k, v)) id None
       ex_attn () [[ex_table ! 2, ex_table ! 3]] ex_streaming [0] False =
     Inr (ex_attn\<lparr>kv_cache := Some (fst (projr (prefill ex_attn_cache [0] ex_keys ex_values)))\<rparr>,
          ([[[[- 1, 0]], [[0, - 1]]]],
           rotate_blocks (map (take (shape1 ex_keys)) ex_streaming) ex_keys, ex_values))"
proof -
  have c: "kv_cache ex_attn = Some ex_attn_cache"
    by (simp add: ex_attn_def)
  have r: "rect 1 20 (draft_k_cache ex_attn_cache)"
    by code_simp
  have one: "0 < (1::nat)" by simp
  have a: "prefill ex_attn_cache [0] ex_keys ex_values =
     Inr (fst (projr (prefill ex_attn_cache [0] ex_keys ex_values)), ex_keys, ex_values)"
    by code_simp
  have q: "apply_rotary_emb ex_queries [[ex_table ! 2, ex_table ! 3]] = Inr [[[[- 1, 0]], [[0, - 1]]]]"
    by code_simp
  have f: "rotary_shapes_ok ex_keys (getitem_cols ex_streaming None (Some (int (shape1 ex_keys))))"
    by code_simp
  have e: "rotate_blocks (map (take (shape1 ex_keys)) ex_streaming) ex_keys = [[[[1, 0]], [[0, 1]]]]"
    by code_simp
  note t = draft_prefill_local_rotation[
      where wqkv = "\<lambda>u :: unit. (ex_queries, ex_keys, ex_values)" and x = "()"
        and kernel = "\<lambda>q k v. (q, k, v)" and wo = id and all_reduce = None,
      OF c refl r one a q f]
  from t[where is_last = True]
  have 1: "draft_prefill (\<lambda>u :: unit. (ex_queries, ex_keys, ex_values)) (\<lambda>q k v. (q, k, v)) id None
       ex_attn () [[ex_table ! 2, ex_table ! 3]] ex_streaming [0] True =
     Inr (ex_attn\<lparr>kv_cache := Some
            ((fst (projr (prefill ex_attn_cache [0] ex_keys ex_values)))
               \<lparr>draft_k_cache :=
                  map2 (write_at 0)
                    (draft_k_cache (fst (projr (prefill ex_attn_cache [0] ex_keys ex_values))))
                    (rotate_blocks (map (take (shape1 ex_keys)) ex_streaming) ex_keys)\<rparr>)\<rparr>,
          ([[[[- 1, 0]], [[0, - 1]]]],
           rotate_blocks (map (take (shape1 ex_keys)) ex_streaming) ex_keys, ex_values))"
    by simp
  from t[where is_last = False]
  have 2: "draft_prefill (\<lambda>u :: unit. (ex_queries, ex_keys, ex_values)) (\<lambda>q k v. (q, k, v)) id None
       ex_attn () [[ex_table ! 2, ex_table ! 3]] ex_streaming [0] False =
     Inr (ex_attn\<lparr>kv_cache := Some (fst (projr (prefill ex_attn_cache [0] ex_keys ex_values)))\<rparr>,
          ([[[[- 1, 0]], [[0, - 1]]]],
           rotate_blocks (map (take (shape1 ex_keys)) ex_streaming) ex_keys, ex_values))"
    by simp
  from r a q e 1 2 show ?thesis by blast
qed


subsection \<open>Configuration\<close>

lemma sort_desc_facts:
  fixes xs :: "'a list list"
  assumes d: "distinct xs" and l: "length xs > 1"
    and ys: "ys = sort_key (\<lambda>c. - int (length c)) xs"
  shows "ys ! 0 \<in> set xs"
    and "ys ! 1 \<in> set xs"
    and "ys ! 0 \<noteq> ys ! 1"
    and "\<forall>x\<in>set xs. length x \<le> length (ys ! 0)"
    and "\<forall>x\<in>set xs. x \<noteq> ys ! 0 \<longrightarrow> length x \<le> length (ys ! 1)"
proof -
  have s: "sorted (map (\<lambda>c. - int (length c)) ys)" and st: "set ys = set xs"
    and ln: "length ys = length xs" and dy: "distinct ys"
    using d by (simp_all add: ys)
  have mono: "length (ys ! j) \<le> length (ys ! i)" if "i \<le> j" "j < length ys" for i j
  proof -
    have "map (\<lambda>c. - int (length c)) ys ! i \<le> map (\<lambda>c. - int (length c)) ys ! j"
      using s that by (simp add: sorted_iff_nth_mono)
    then show ?thesis
      using that by simp
  qed
  have l0: "0 < length ys" and l1: "1 < length ys"
    using l ln by auto
  show "ys ! 0 \<in> set xs"
    using nth_mem[OF l0] st by simp
  show "ys ! 1 \<in> set xs"
    using nth_mem[OF l1] st by simp
  show "ys ! 0 \<noteq> ys ! 1"
    using dy l0 l1 by (simp add: nth_eq_iff_index_eq)
  show "\<forall>x\<in>set xs. length x \<le> length (ys ! 0)"
  proof
    fix x assume "x \<in> set xs"
    then obtain j where "j < length ys" "ys ! j = x"
      using st by (metis in_set_conv_nth)
    then show "length x \<le> length (ys ! 0)"
      using mono[of 0 j] by simp
  qed
  show "\<forall>x\<in>set xs. x \<noteq> ys ! 0 \<longrightarrow> length x \<le> length (ys ! 1)"
  proof (intro ballI impI)
    fix x assume "x \<in> set xs" and ne: "x \<noteq> ys ! 0"
    then obtain j where j: "j < length ys" "ys ! j = x"
      using st by (metis in_set_conv_nth)
    with ne have "j \<noteq> 0" by (cases j) auto
    then have "1 \<le> j" by simp
    then show "length x \<le> length (ys ! 1)"
      using mono[of 1 j] j by simp
  qed
qed

text \<open>
  C7. Named configuration resolution, for any table with distinct keys (a dict). An exact
  key returns that key's configuration. Otherwise the candidates are the keys that match
  case-insensitively as substrings of the name: with no candidate resolution fails
  (IndexError); when two different candidates share the greatest length it fails
  (AssertionError); and a candidate strictly longer than every other candidate is the one
  whose configuration is returned. On the table of the source, \<open>unknown-model-xyz\<close> fails.
\<close>

theorem from_name_resolution:
  assumes dk: "distinct (map fst table)"
  shows
   "(\<forall>kw. map_of table name = Some kw \<longrightarrow> from_name_in table name = post_init kw) \<and>
    (map_of table name = None \<longrightarrow>
       ((\<forall>k\<in>set (map fst table). \<not> fuzzy_match name k) \<longrightarrow>
           from_name_in table name = Inl IndexError) \<and>
       (\<forall>k1 k2. k1 \<in> set (map fst table) \<and> k2 \<in> set (map fst table) \<and>
           fuzzy_match name k1 \<and> fuzzy_match name k2 \<and> k1 \<noteq> k2 \<and> length k1 = length k2 \<and>
           (\<forall>k\<in>set (map fst table). fuzzy_match name k \<longrightarrow> length k \<le> length k1) \<longrightarrow>
           from_name_in table name = Inl AssertionError) \<and>
       (\<forall>k kw. (k, kw) \<in> set table \<and> fuzzy_match name k \<and>
           (\<forall>k'\<in>set (map fst table). fuzzy_match name k' \<and> k' \<noteq> k \<longrightarrow> length k' < length k) \<longrightarrow>
           from_name_in table name = post_init kw)) \<and>
    from_name ''unknown-model-xyz'' = Inl IndexError"
proof (intro conjI allI impI)
  fix kw assume "map_of table name = Some kw"
  then show "from_name_in table name = post_init kw"
    by (simp add: from_name_in_def)
next
  assume "map_of table name = None" "\<forall>k\<in>set (map fst table). \<not> fuzzy_match name k"
  then have "filter (fuzzy_match name) (map fst table) = []"
    by (simp add: filter_empty_conv)
  then show "from_name_in table name = Inl IndexError"
    using \<open>map_of table name = None\<close> by (simp add: from_name_in_def)
next
  fix k1 k2
  define config where "config = filter (fuzzy_match name) (map fst table)"
  define ys where "ys = sort_key (\<lambda>c. - int (length c)) config"
  assume none: "map_of table name = None"
    and h: "k1 \<in> set (map fst table) \<and> k2 \<in> set (map fst table) \<and>
           fuzzy_match name k1 \<and> fuzzy_match name k2 \<and> k1 \<noteq> k2 \<and> length k1 = length k2 \<and>
           (\<forall>k\<in>set (map fst table). fuzzy_match name k \<longrightarrow> length k \<le> length k1)"
  have dc: "distinct config"
    using dk by (simp add: config_def)
  have in1: "k1 \<in> set config" and in2: "k2 \<in> set config"
    using h by (simp_all add: config_def)
  have "card (set config) \<ge> card {k1, k2}"
    using in1 in2 by (intro card_mono) auto
  then have len: "length config > 1"
    using h dc by (simp add: distinct_card)
  note f = sort_desc_facts[OF dc len ys_def]
  have mx: "\<forall>x\<in>set config. length x \<le> length k1"
    using h by (auto simp: config_def)
  have e0: "length (ys ! 0) = length k1"
    using f(1) f(4) in1 mx by (simp add: le_antisym)
  have "length (ys ! 1) = length k1"
  proof (cases "ys ! 0 = k1")
    case True
    then have "k2 \<noteq> ys ! 0" using h by auto
    then have "length k2 \<le> length (ys ! 1)" using f(5) in2 by simp
    then show ?thesis using f(2) mx h by (simp add: le_antisym)
  next
    case False
    then have "length k1 \<le> length (ys ! 1)" using f(5) in1 by simp
    then show ?thesis using f(2) mx by (simp add: le_antisym)
  qed
  with e0 len none show "from_name_in table name = Inl AssertionError"
    by (simp add: from_name_in_def config_def ys_def)
next
  fix k kw
  define config where "config = filter (fuzzy_match name) (map fst table)"
  define ys where "ys = sort_key (\<lambda>c. - int (length c)) config"
  assume none: "map_of table name = None"
    and h: "(k, kw) \<in> set table \<and> fuzzy_match name k \<and>
           (\<forall>k'\<in>set (map fst table). fuzzy_match name k' \<and> k' \<noteq> k \<longrightarrow> length k' < length k)"
  have dc: "distinct config"
    using dk by (simp add: config_def)
  have kin: "k \<in> set config"
    using h by (force simp: config_def)
  have lt: "\<forall>x\<in>set config. x \<noteq> k \<longrightarrow> length x < length k"
    using h by (auto simp: config_def)
  have mo: "map_of table k = Some kw"
    using h dk by simp
  show "from_name_in table name = post_init kw"
  proof (cases "length config > 1")
    case True
    note f = sort_desc_facts[OF dc True ys_def]
    have y0: "ys ! 0 = k"
      using f(1) f(4) kin lt by (metis not_less)
    then have "length (ys ! 1) < length k"
      using f(2) f(3) lt by metis
    then have ne: "length (ys ! 0) \<noteq> length (ys ! 1)"
      using y0 by simp
    have "length ys = length config" by (simp add: ys_def)
    then have "ys \<noteq> []" using True by auto
    then obtain z zs where yz: "ys = z # zs" by (cases ys) auto
    then have "z = k" using y0 by simp
    with True ne none mo yz show ?thesis
      by (simp add: from_name_in_def config_def[symmetric] ys_def[symmetric])
  next
    case False
    then have "config = [k]"
      using kin by (cases config) auto
    with none mo show ?thesis
      by (simp add: from_name_in_def config_def[symmetric])
  qed
next
  show "from_name ''unknown-model-xyz'' = Inl IndexError"
    by code_simp
qed


theorem from_name_resolution_witness:
  "distinct (map fst transformer_configs) \<and>
   map_of transformer_configs ''llama-2-7b-32k-chat'' = None \<and>
   fuzzy_match ''llama-2-7b-32k-chat'' ''llama-2-7b'' \<and>
   fuzzy_match ''llama-2-7b-32k-chat'' ''llama-2-7b-32k'' \<and>
   from_name_in transformer_configs ''llama-2-7b-32k-chat'' =
     post_init (ModelArgs_defaults\<lparr>block_size := 32768, n_layer := 32, dim := 4096,
       vocab_size := 32000, scaling_factor := 8\<rparr>)"
proof -
  have d: "distinct (map fst transformer_configs)"
    by (simp add: transformer_configs_def)
  have n: "map_of transformer_configs ''llama-2-7b-32k-chat'' = None"
    by (simp add: transformer_configs_def)
  have m: "(''llama-2-7b-32k'', ModelArgs_defaults\<lparr>block_size := 32768, n_layer := 32, dim := 4096,
       vocab_size := 32000, scaling_factor := 8\<rparr>) \<in> set transformer_configs"
    by (simp add: transformer_configs_def)
  have f1: "fuzzy_match ''llama-2-7b-32k-chat'' ''llama-2-7b''"
    by code_simp
  have f2: "fuzzy_match ''llama-2-7b-32k-chat'' ''llama-2-7b-32k''"
    by code_simp
  have u: "\<forall>k'\<in>set (map fst transformer_configs).
      fuzzy_match ''llama-2-7b-32k-chat'' k' \<and> k' \<noteq> ''llama-2-7b-32k'' \<longrightarrow>
      length k' < length ''llama-2-7b-32k''"
    by code_simp
  from from_name_resolution [OF d, of "''llama-2-7b-32k-chat''"] n m f2 u
  have "from_name_in transformer_configs ''llama-2-7b-32k-chat'' =
     post_init (ModelArgs_defaults\<lparr>block_size := 32768, n_layer := 32, dim := 4096,
       vocab_size := 32000, scaling_factor := 8\<rparr>)"
    by blast
  with d n f1 f2 show ?thesis by blast
qed

text \<open>
  C10. Whatever \<open>head_dim\<close> the caller passes to the constructor, construction behaves as
  if it had not been passed: it fails in the same cases (only when \<open>n_head\<close> is 0), and the
  configuration it produces is the same one, whose \<open>head_dim\<close> is \<open>dim // n_head\<close>.
\<close>

theorem head_dim_always_overwritten:
  "post_init (a\<lparr>head_dim := h\<rparr>) = post_init a \<and>
   (n_head a = 0 \<longrightarrow> post_init (a\<lparr>head_dim := h\<rparr>) = Inl ZeroDivisionError) \<and>
   (n_head a \<noteq> 0 \<longrightarrow>
      \<not> isl (post_init (a\<lparr>head_dim := h\<rparr>)) \<and>
      head_dim (projr (post_init (a\<lparr>head_dim := h\<rparr>))) = dim a div n_head a)"
  by (auto simp: post_init_def Let_def split: option.splits)

theorem head_dim_always_overwritten_witness:
  "n_head ModelArgs_defaults \<noteq> 0 \<and>
   post_init (ModelArgs_defaults\<lparr>head_dim := 7\<rparr>) = post_init ModelArgs_defaults \<and>
   head_dim (projr (post_init (ModelArgs_defaults\<lparr>head_dim := 7\<rparr>))) = 128"
proof -
  have n: "n_head ModelArgs_defaults \<noteq> 0"
    by (simp add: ModelArgs_defaults_def)
  have d: "dim ModelArgs_defaults div n_head ModelArgs_defaults = 128"
    by (simp add: ModelArgs_defaults_def)
  from head_dim_always_overwritten [where a = ModelArgs_defaults and h = 7] n d
  show ?thesis by metis
qed

end
